theory Spec2Isabelle
  imports Main
begin

section \<open>JavaScript values\<close>

text \<open>
  The values a parsed JSON request body can hold. A field that is absent from an object
  reads as \<open>undefined\<close> in JavaScript; that is \<open>None\<close> of \<open>jsval option\<close> here.
  Of a number in a body the code reads only whether it is zero and that it is a number,
  so the value is kept as an integer there.
  A string is its list of code units, restricted to code units below 256.
\<close>

datatype jsval =
    JNull
  | JBool bool
  | JNum int
  | JStr string
  | JArr "jsval list"
  | JObj "(string \<times> jsval) list"

text \<open>The operand test of \<open>!x\<close> and \<open>x && y\<close> (ToBoolean).\<close>

fun truthy :: "jsval option \<Rightarrow> bool" where
  "truthy None = False"
| "truthy (Some JNull) = False"
| "truthy (Some (JBool b)) = b"
| "truthy (Some (JNum n)) = (n \<noteq> 0)"
| "truthy (Some (JStr s)) = (s \<noteq> [])"
| "truthy (Some (JArr xs)) = True"
| "truthy (Some (JObj kvs)) = True"

fun typeof :: "jsval option \<Rightarrow> string" where
  "typeof None = ''undefined''"
| "typeof (Some JNull) = ''object''"
| "typeof (Some (JBool b)) = ''boolean''"
| "typeof (Some (JNum n)) = ''number''"
| "typeof (Some (JStr s)) = ''string''"
| "typeof (Some (JArr xs)) = ''object''"
| "typeof (Some (JObj kvs)) = ''object''"

subsection \<open>Numbers\<close>

text \<open>
  A Number is a double. The numbers this program computes with are the results of
  \<open>parseInt\<close> and the ids of the tasks: \<open>NaN\<close>, the two infinities, and doubles whose
  value is an integer, held here as that integer (\<open>-0\<close> is held as \<open>0\<close>: the two are equal
  for \<open>===\<close>, for the database and for \<open>String\<close>).
\<close>

datatype number = NaN | Num int | PosInfinity | NegInfinity

definition isNaN :: "number \<Rightarrow> bool" where
  "isNaN x = (x = NaN)"

text \<open>
  The double nearest to a natural number, ties to the even significand: a number below
  \<open>2^53\<close> is a double itself; a longer one keeps its 53 leading bits.
\<close>

fun bitLength :: "nat \<Rightarrow> nat" where
  "bitLength n = (if n = 0 then 0 else bitLength (n div 2) + 1)"

definition roundDouble :: "nat \<Rightarrow> nat" where
  "roundDouble x =
     (if x < 2 ^ 53 then x
      else let q = 2 ^ (bitLength x - 53); m = x div q; r = x mod q
           in if q < 2 * r \<or> (2 * r = q \<and> odd m) then (m + 1) * q else m * q)"

definition roundInt :: "int \<Rightarrow> int" where
  "roundInt x = sgn x * int (roundDouble (nat (abs x)))"

text \<open>The Number value of a mathematical integer: the nearest double, or an infinity.\<close>

definition toNumber :: "int \<Rightarrow> number" where
  "toNumber x =
     (if 2 ^ 1024 \<le> roundDouble (nat (abs x))
      then (if x < 0 then NegInfinity else PosInfinity)
      else Num (roundInt x))"

subsection \<open>parseInt and the printing of numbers\<close>

text \<open>
  \<open>parseInt(string)\<close> with no radix: leading white space is skipped, a sign is read,
  a \<open>0x\<close> or \<open>0X\<close> prefix selects radix 16, and the longest prefix of digits of the radix
  is read; anything after it is ignored. With no digit the result is \<open>NaN\<close>, otherwise
  the Number value of the integer the digits write. (The language lets an engine replace
  the decimal digits after the twentieth significant one by zeros; that option is not
  taken here.)
\<close>

definition isWhiteSpace :: "char \<Rightarrow> bool" where
  "isWhiteSpace c = (of_char c \<in> {9, 10, 11, 12, 13, 32, 160 :: nat})"

definition digitValue :: "char \<Rightarrow> nat" where
  "digitValue c =
     (let n = of_char c :: nat in
      if 48 \<le> n \<and> n \<le> 57 then n - 48
      else if 97 \<le> n \<and> n \<le> 122 then n - 87
      else if 65 \<le> n \<and> n \<le> 90 then n - 55
      else 36)"

definition radixDigit :: "nat \<Rightarrow> char \<Rightarrow> bool" where
  "radixDigit R c = (digitValue c < R)"

definition mathInt :: "nat \<Rightarrow> string \<Rightarrow> nat" where
  "mathInt R Z = foldl (\<lambda>acc c. acc * R + digitValue c) 0 Z"

definition parseInt :: "string \<Rightarrow> number" where
  "parseInt inputString =
     (let S = dropWhile isWhiteSpace inputString;
          sign = (case S of c # cs \<Rightarrow> if c = CHR ''-'' then - 1 else 1 | [] \<Rightarrow> (1 :: int));
          S1 = (case S of c # cs \<Rightarrow> if c = CHR ''+'' \<or> c = CHR ''-'' then cs else S | [] \<Rightarrow> S);
          hex = (take 2 S1 = ''0x'' \<or> take 2 S1 = ''0X'');
          R = (if hex then 16 else 10);
          S2 = (if hex then drop 2 S1 else S1);
          Z = takeWhile (radixDigit R) S2
      in if Z = [] then NaN else toNumber (sign * int (mathInt R Z)))"

text \<open>
  \<open>String(x)\<close> for a Number \<open>x\<close>. For a positive integer the language takes the integer
  with the fewest significant decimal digits that still rounds to \<open>x\<close> (the nearest to
  \<open>x\<close> among several, the one with the even last digit on a tie) and prints its digits;
  from 22 digits on it prints the significant digits with a point after the first,
  then \<open>e+\<close> and the exponent. \<open>shortestFrom x p\<close> looks for that integer among the
  multiples of \<open>10^p\<close>, the coarsest first.
\<close>

fun digits10 :: "nat \<Rightarrow> string" where
  "digits10 n = (if n < 10 then [char_of (48 + n)] else digits10 (n div 10) @ [char_of (48 + n mod 10)])"

fun shortestFrom :: "nat \<Rightarrow> nat \<Rightarrow> nat" where
  "shortestFrom x 0 = x"
| "shortestFrom x (Suc p) =
     (let q = 10 ^ Suc p; lo = (x div q) * q; hi = lo + q;
          okLo = (roundDouble lo = x); okHi = (roundDouble hi = x)
      in if okLo \<and> okHi
           then (if x - lo < hi - x then lo
                 else if hi - x < x - lo then hi
                 else if even (x div q) then lo else hi)
         else if okLo then lo
         else if okHi then hi
         else shortestFrom x p)"

definition shortest :: "nat \<Rightarrow> nat" where
  "shortest x = shortestFrom x (length (digits10 x) - 1)"

definition exponential :: "nat \<Rightarrow> string" where
  "exponential v =
     (let ds = digits10 v;
          significant = rev (dropWhile (\<lambda>c. c = CHR ''0'') (rev ds))
      in (case significant of
            [] \<Rightarrow> []
          | d # rest \<Rightarrow> (if rest = [] then [d] else d # CHR ''.'' # rest))
         @ ''e+'' @ digits10 (length ds - 1))"

definition NumberToString :: "nat \<Rightarrow> string" where
  "NumberToString x =
     (let v = shortest x in if length (digits10 v) \<le> 21 then digits10 v else exponential v)"

definition ToString :: "number \<Rightarrow> string" where
  "ToString x =
     (case x of
        NaN \<Rightarrow> ''NaN''
      | PosInfinity \<Rightarrow> ''Infinity''
      | NegInfinity \<Rightarrow> ''-Infinity''
      | Num n \<Rightarrow> if n < 0 then CHR ''-'' # NumberToString (nat (- n)) else NumberToString (nat n))"

section \<open>Requests, responses and the validation middlewares\<close>

text \<open>
  \<open>req.params.id\<close> is the path segment as text when the request arrives, a number once
  \<open>validateId\<close> has replaced it, and \<open>undefined\<close> on a route with no \<open>:id\<close>.
  \<open>req.body\<close> is the parsed JSON object: a field that is missing reads as \<open>None\<close>.
\<close>

datatype param = PUndefined | PString string | PNumber number

record request =
  http_method :: string
  params_id :: param
  body :: "string \<Rightarrow> jsval option"

text \<open>A response: the status code and the JSON text's value (\<open>None\<close> for an empty body).\<close>

datatype http_response = Response (status: nat) (payload: "jsval option")

definition error_body :: "string \<Rightarrow> jsval option" where
  "error_body msg = Some (JObj [(''error'', JStr msg)])"

text \<open>A middleware either answers the request or calls \<open>next()\<close> with the request it leaves.\<close>

datatype middleware_result = Respond http_response | Next request

definition parseInt_param :: "param \<Rightarrow> number" where
  "parseInt_param p =
     (case p of
        PUndefined \<Rightarrow> parseInt ''undefined''
      | PString s \<Rightarrow> parseInt s
      | PNumber x \<Rightarrow> parseInt (ToString x))"

definition msg_title_required :: string where
  "msg_title_required = ''El campo '' @ [CHR 0x22] @ ''title'' @ [CHR 0x22] @ '' es requerido''"

definition msg_title_string :: string where
  "msg_title_string =
     ''El campo '' @ [CHR 0x22] @ ''title'' @ [CHR 0x22] @ '' debe ser una cadena de texto''"

definition msg_completed_boolean :: string where
  "msg_completed_boolean =
     ''El campo '' @ [CHR 0x22] @ ''completed'' @ [CHR 0x22] @ '' debe ser un booleano''"

definition msg_invalid_id :: string where
  "msg_invalid_id = ''El ID debe ser un n'' @ [CHR 0xFA] @ ''mero v'' @ [CHR 0xE1] @ ''lido''"

definition validateToDo :: "request \<Rightarrow> middleware_result" where
  "validateToDo req =
     (let title = body req ''title''; completed = body req ''completed'' in
      if http_method req = ''POST'' \<and> \<not> truthy title
        then Respond (Response 400 (error_body msg_title_required))
      else if truthy title \<and> typeof title \<noteq> ''string''
        then Respond (Response 400 (error_body msg_title_string))
      else if completed \<noteq> None \<and> typeof completed \<noteq> ''boolean''
        then Respond (Response 400 (error_body msg_completed_boolean))
      else Next req)"

definition validateId :: "request \<Rightarrow> middleware_result" where
  "validateId req =
     (let x = parseInt_param (params_id req) in
      if isNaN x then Respond (Response 400 (error_body msg_invalid_id))
      else Next (req\<lparr>params_id := PNumber x\<rparr>))"

section \<open>The error handler\<close>

text \<open>What the handler reads of a thrown error: its name, its code and its message.\<close>

record js_error =
  err_name :: string
  err_code :: "int option"
  err_message :: string

definition msg_validation :: string where
  "msg_validation = ''Error de validaci'' @ [CHR 0xF3] @ ''n''"

definition msg_cast :: string where
  "msg_cast = ''ID inv'' @ [CHR 0xE1] @ ''lido''"

definition errorHandler :: "js_error \<Rightarrow> http_response" where
  "errorHandler err =
     (if err_name err = ''ValidationError''
        then Response 400 (Some (JObj [(''error'', JStr msg_validation),
                                       (''details'', JStr (err_message err))]))
      else if err_name err = ''CastError'' then Response 400 (error_body msg_cast)
      else if err_code err = Some 11000 then Response 409 (error_body ''Duplicado detectado'')
      else Response 500 (error_body ''Error interno del servidor''))"

section \<open>The task class\<close>

text \<open>
  \<open>ToDo\<close> keeps its three fields private (\<open>#id\<close>, \<open>#title\<close>, \<open>#completed\<close>) and reads
  them through getters defined on the class. The constructor's third parameter
  defaults to \<open>false\<close> when it is \<open>undefined\<close>.
\<close>

record ToDo =
  todo_id :: int
  todo_title :: "jsval option"
  todo_completed :: jsval

definition new_ToDo :: "int \<Rightarrow> jsval option \<Rightarrow> jsval option \<Rightarrow> ToDo" where
  "new_ToDo i t c =
     \<lparr>todo_id = i, todo_title = t,
      todo_completed = (case c of None \<Rightarrow> JBool False | Some v \<Rightarrow> v)\<rparr>"

text \<open>
  \<open>res.json(x)\<close> sends \<open>JSON.stringify(x)\<close>, which writes the own enumerable properties of
  an object. A \<open>ToDo\<close> instance has none: private fields are not properties, and the
  getters are accessors of the prototype. The class defines no \<open>toJSON\<close>.
\<close>

definition json_of_ToDo :: "ToDo \<Rightarrow> jsval" where
  "json_of_ToDo t = JObj []"

section \<open>The store adapter\<close>

text \<open>
  A stored document: the driver's storage identifier \<open>_id\<close> and the three fields
  \<open>insertToDo\<close> writes. Documents read back from the collection are plain objects, so
  \<open>JSON.stringify\<close> writes all four fields.
\<close>

record document =
  doc_oid :: string
  doc_id :: int
  doc_title :: jsval
  doc_completed :: jsval

definition json_of_document :: "document \<Rightarrow> jsval" where
  "json_of_document d =
     JObj [(''_id'', JStr (doc_oid d)), (''id'', JNum (doc_id d)),
           (''title'', doc_title d), (''completed'', doc_completed d)]"

text \<open>
  The driver writes a field whose value is \<open>undefined\<close> as \<open>null\<close> (its default, with
  \<open>ignoreUndefined\<close> unset).
\<close>

definition bson_value :: "jsval option \<Rightarrow> jsval" where
  "bson_value v = (case v of None \<Rightarrow> JNull | Some x \<Rightarrow> x)"

text \<open>
  The adapter's primitives, and its state: whether \<open>this.collection\<close> has been set by
  \<open>connect\<close>, the documents of the collection in natural (insertion) order, and the
  primitives invoked so far.
\<close>

datatype primitive = Connect | Insert | ListAll | Update | Delete

record MongoConnection =
  collection :: bool
  documents :: "document list"
  invoked :: "primitive list"

text \<open>
  What a request takes from outside the program: for each primitive, the error the
  driver throws in it (\<open>None\<close> when the call goes through); the storage identifier the
  driver generates for an inserted document; and the greatest number of arguments the
  engine lets one call take.
\<close>

record environment =
  fault :: "primitive \<Rightarrow> js_error option"
  fresh_oid :: string
  argument_limit :: nat

definition healthy :: "environment \<Rightarrow> bool" where
  "healthy e = (fault e = (\<lambda>p. None))"

definition null_collection :: js_error where
  "null_collection = \<lparr>err_name = ''TypeError'', err_code = None, err_message = []\<rparr>"

definition enter :: "primitive \<Rightarrow> MongoConnection \<Rightarrow> MongoConnection" where
  "enter p m = m\<lparr>invoked := invoked m @ [p]\<rparr>"

definition connect :: "environment \<Rightarrow> MongoConnection \<Rightarrow> (js_error + unit) \<times> MongoConnection" where
  "connect e m =
     (let m1 = enter Connect m in
      case fault e Connect of
        Some err \<Rightarrow> (Inl err, m1)
      | None \<Rightarrow> (Inr (), m1\<lparr>collection := True\<rparr>))"

definition insertToDo ::
  "environment \<Rightarrow> ToDo \<Rightarrow> MongoConnection \<Rightarrow> (js_error + string) \<times> MongoConnection" where
  "insertToDo e todo m =
     (let m1 = enter Insert m;
          doc = \<lparr>doc_oid = fresh_oid e, doc_id = todo_id todo, doc_title = bson_value (todo_title todo),
                 doc_completed = todo_completed todo\<rparr>
      in if \<not> collection m then (Inl null_collection, m1)
         else case fault e Insert of
                Some err \<Rightarrow> (Inl err, m1)
              | None \<Rightarrow> (Inr (fresh_oid e), m1\<lparr>documents := documents m @ [doc]\<rparr>))"

definition getAllToDos ::
  "environment \<Rightarrow> MongoConnection \<Rightarrow> (js_error + document list) \<times> MongoConnection" where
  "getAllToDos e m =
     (let m1 = enter ListAll m in
      if \<not> collection m then (Inl null_collection, m1)
      else case fault e ListAll of
             Some err \<Rightarrow> (Inl err, m1)
           | None \<Rightarrow> (Inr (documents m), m1))"

text \<open>
  \<open>updateOne({id: id}, {$set: updateData})\<close>, as the database documents it: the first
  document whose \<open>id\<close> equals the queried number gets the fields of \<open>updateData\<close>;
  \<open>matchedCount\<close> says whether one was found, \<open>modifiedCount\<close> whether it changed, so a
  \<open>$set\<close> of the values already stored, or of no field at all, counts no modification.
  A stored id is an integer; \<open>NaN\<close> and the infinities equal none.
\<close>

record updateData =
  upd_title :: "jsval option"
  upd_completed :: "jsval option"

record update_result =
  matchedCount :: nat
  modifiedCount :: nat

definition matches :: "number \<Rightarrow> document \<Rightarrow> bool" where
  "matches q d = (q = Num (doc_id d))"

definition set_fields :: "updateData \<Rightarrow> document \<Rightarrow> document" where
  "set_fields u d =
     d\<lparr>doc_title := (case upd_title u of None \<Rightarrow> doc_title d | Some t \<Rightarrow> t),
       doc_completed := (case upd_completed u of None \<Rightarrow> doc_completed d | Some c \<Rightarrow> c)\<rparr>"

fun update_first :: "('a \<Rightarrow> bool) \<Rightarrow> ('a \<Rightarrow> 'a) \<Rightarrow> 'a list \<Rightarrow> 'a list" where
  "update_first P f [] = []"
| "update_first P f (d # ds) = (if P d then f d # ds else d # update_first P f ds)"

fun delete_first :: "('a \<Rightarrow> bool) \<Rightarrow> 'a list \<Rightarrow> 'a list" where
  "delete_first P [] = []"
| "delete_first P (d # ds) = (if P d then ds else d # delete_first P ds)"

definition updateOne :: "number \<Rightarrow> updateData \<Rightarrow> document list \<Rightarrow> update_result" where
  "updateOne q u ds =
     (case find (matches q) ds of
        None \<Rightarrow> \<lparr>matchedCount = 0, modifiedCount = 0\<rparr>
      | Some d \<Rightarrow> \<lparr>matchedCount = 1, modifiedCount = (if set_fields u d = d then 0 else 1)\<rparr>)"

definition updateToDo ::
  "environment \<Rightarrow> number \<Rightarrow> updateData \<Rightarrow> MongoConnection
     \<Rightarrow> (js_error + update_result) \<times> MongoConnection" where
  "updateToDo e i u m =
     (let m1 = enter Update m in
      if \<not> collection m then (Inl null_collection, m1)
      else case fault e Update of
             Some err \<Rightarrow> (Inl err, m1)
           | None \<Rightarrow>
               (Inr (updateOne i u (documents m)),
                m1\<lparr>documents := update_first (matches i) (set_fields u) (documents m)\<rparr>))"

text \<open>\<open>deleteOne({id: id})\<close> removes the first document whose \<open>id\<close> equals the queried number.\<close>

definition deletedCount :: "number \<Rightarrow> document list \<Rightarrow> nat" where
  "deletedCount q ds = (case find (matches q) ds of None \<Rightarrow> 0 | Some d \<Rightarrow> 1)"

definition deleteToDo ::
  "environment \<Rightarrow> number \<Rightarrow> MongoConnection \<Rightarrow> (js_error + nat) \<times> MongoConnection" where
  "deleteToDo e i m =
     (let m1 = enter Delete m in
      if \<not> collection m then (Inl null_collection, m1)
      else case fault e Delete of
             Some err \<Rightarrow> (Inl err, m1)
           | None \<Rightarrow>
               (Inr (deletedCount i (documents m)),
                m1\<lparr>documents := delete_first (matches i) (documents m)\<rparr>))"

section \<open>The controller\<close>

text \<open>
  A controller method ends by sending a response or by handing a caught error to
  \<open>next\<close>. Every method awaits \<open>connect\<close> first; an error thrown by a primitive is
  caught by the method's \<open>try\<close> and passed on.
\<close>

datatype outcome = Sent http_response | NextError js_error

definition msg_not_found :: string where
  "msg_not_found = ''ToDo no encontrado''"

definition msg_title_needed :: string where
  "msg_title_needed = ''El t'' @ [CHR 0xED] @ ''tulo es requerido''"

definition ToDoController_connect ::
  "environment \<Rightarrow> MongoConnection \<Rightarrow> (js_error + unit) \<times> MongoConnection" where
  "ToDoController_connect e m = connect e m"

definition getAll :: "environment \<Rightarrow> request \<Rightarrow> MongoConnection \<Rightarrow> outcome \<times> MongoConnection" where
  "getAll e req m =
     (case ToDoController_connect e m of
        (Inl error, m1) \<Rightarrow> (NextError error, m1)
      | (Inr u, m1) \<Rightarrow>
          (case getAllToDos e m1 of
             (Inl error, m2) \<Rightarrow> (NextError error, m2)
           | (Inr todos, m2) \<Rightarrow>
               (Sent (Response 200 (Some (JArr (map json_of_document todos)))), m2)))"

text \<open>\<open>todos.find(t => t.id === id)\<close>: the first listed task whose id is the number asked for.\<close>

definition find_by_id :: "number \<Rightarrow> document list \<Rightarrow> document option" where
  "find_by_id i todos = find (\<lambda>t. Num (doc_id t) = i) todos"

definition getById :: "environment \<Rightarrow> request \<Rightarrow> MongoConnection \<Rightarrow> outcome \<times> MongoConnection" where
  "getById e req m =
     (case ToDoController_connect e m of
        (Inl error, m1) \<Rightarrow> (NextError error, m1)
      | (Inr u, m1) \<Rightarrow>
          (let i = parseInt_param (params_id req) in
           case getAllToDos e m1 of
             (Inl error, m2) \<Rightarrow> (NextError error, m2)
           | (Inr todos, m2) \<Rightarrow>
               (case find_by_id i todos of
                  None \<Rightarrow> (Sent (Response 404 (error_body msg_not_found)), m2)
                | Some todo \<Rightarrow> (Sent (Response 200 (Some (json_of_document todo))), m2))))"

text \<open>
  \<open>todos.length > 0 ? Math.max(...todos.map(t => t.id)) + 1 : 1\<close>: the empty list is the
  second branch; on a list with a first element \<open>Math.max\<close> folds \<open>max\<close> over the rest.
  The spread passes every id as an argument of one call, and the engine throws a
  \<open>RangeError\<close> when there are more than it lets a call take. The sum is a double again:
  the nearest one to the greatest id plus one.
\<close>

definition range_error :: js_error where
  "range_error = \<lparr>err_name = ''RangeError'', err_code = None,
                   err_message = ''Maximum call stack size exceeded''\<rparr>"

definition newId_of :: "environment \<Rightarrow> document list \<Rightarrow> js_error + int" where
  "newId_of e todos =
     (case map doc_id todos of
        [] \<Rightarrow> Inr 1
      | x # xs \<Rightarrow>
          if argument_limit e < length todos then Inl range_error
          else Inr (roundInt (fold max xs x + 1)))"

definition create :: "environment \<Rightarrow> request \<Rightarrow> MongoConnection \<Rightarrow> outcome \<times> MongoConnection" where
  "create e req m =
     (case ToDoController_connect e m of
        (Inl error, m1) \<Rightarrow> (NextError error, m1)
      | (Inr u, m1) \<Rightarrow>
          (let title = body req ''title'';
               completed = (case body req ''completed'' of None \<Rightarrow> JBool False | Some c \<Rightarrow> c)
           in if \<not> truthy title then (Sent (Response 400 (error_body msg_title_needed)), m1)
              else case getAllToDos e m1 of
                     (Inl error, m2) \<Rightarrow> (NextError error, m2)
                   | (Inr todos, m2) \<Rightarrow>
                       (case newId_of e todos of
                          Inl error \<Rightarrow> (NextError error, m2)
                        | Inr newId \<Rightarrow>
                            (let newToDo = new_ToDo newId title (Some completed)
                             in case insertToDo e newToDo m2 of
                                  (Inl error, m3) \<Rightarrow> (NextError error, m3)
                                | (Inr r, m3) \<Rightarrow>
                                    (Sent (Response 201 (Some (json_of_ToDo newToDo))), m3)))))"

definition update :: "environment \<Rightarrow> request \<Rightarrow> MongoConnection \<Rightarrow> outcome \<times> MongoConnection" where
  "update e req m =
     (case ToDoController_connect e m of
        (Inl error, m1) \<Rightarrow> (NextError error, m1)
      | (Inr u, m1) \<Rightarrow>
          (let i = parseInt_param (params_id req);
               updateData = \<lparr>upd_title = body req ''title'', upd_completed = body req ''completed''\<rparr>
           in case updateToDo e i updateData m1 of
                (Inl error, m2) \<Rightarrow> (NextError error, m2)
              | (Inr result, m2) \<Rightarrow>
                  if modifiedCount result = 0
                    then (Sent (Response 404 (error_body msg_not_found)), m2)
                  else case getAllToDos e m2 of
                         (Inl error, m3) \<Rightarrow> (NextError error, m3)
                       | (Inr todos, m3) \<Rightarrow>
                           (Sent (Response 200 (map_option json_of_document (find_by_id i todos))),
                            m3)))"

definition delete :: "environment \<Rightarrow> request \<Rightarrow> MongoConnection \<Rightarrow> outcome \<times> MongoConnection" where
  "delete e req m =
     (case ToDoController_connect e m of
        (Inl error, m1) \<Rightarrow> (NextError error, m1)
      | (Inr u, m1) \<Rightarrow>
          (let i = parseInt_param (params_id req) in
           case deleteToDo e i m1 of
             (Inl error, m2) \<Rightarrow> (NextError error, m2)
           | (Inr n, m2) \<Rightarrow>
               if n = 0 then (Sent (Response 404 (error_body msg_not_found)), m2)
               else (Sent (Response 204 None), m2)))"

section \<open>The routes\<close>

text \<open>
  Each route runs its middlewares in the order the router lists them and then the
  controller method; an error passed to \<open>next\<close> reaches the application's error handler.
  A request is the verb with the \<open>:id\<close> path segment and the JSON body it carries.
\<close>

definition finish :: "outcome \<times> MongoConnection \<Rightarrow> http_response \<times> MongoConnection" where
  "finish r = (case r of (Sent res, m) \<Rightarrow> (res, m) | (NextError err, m) \<Rightarrow> (errorHandler err, m))"

datatype api_request =
    GET_all
  | GET string
  | POST "string \<Rightarrow> jsval option"
  | PUT string "string \<Rightarrow> jsval option"
  | DELETE string

definition router ::
  "environment \<Rightarrow> api_request \<Rightarrow> MongoConnection \<Rightarrow> http_response \<times> MongoConnection" where
  "router e r m =
     (case r of
        GET_all \<Rightarrow>
          finish (getAll e \<lparr>http_method = ''GET'', params_id = PUndefined, body = Map.empty\<rparr> m)
      | GET seg \<Rightarrow>
          (case validateId \<lparr>http_method = ''GET'', params_id = PString seg, body = Map.empty\<rparr> of
             Respond res \<Rightarrow> (res, m)
           | Next req \<Rightarrow> finish (getById e req m))
      | POST b \<Rightarrow>
          (case validateToDo \<lparr>http_method = ''POST'', params_id = PUndefined, body = b\<rparr> of
             Respond res \<Rightarrow> (res, m)
           | Next req \<Rightarrow> finish (create e req m))
      | PUT seg b \<Rightarrow>
          (case validateId \<lparr>http_method = ''PUT'', params_id = PString seg, body = b\<rparr> of
             Respond res \<Rightarrow> (res, m)
           | Next req \<Rightarrow>
               (case validateToDo req of
                  Respond res \<Rightarrow> (res, m)
                | Next req' \<Rightarrow> finish (update e req' m)))
      | DELETE seg \<Rightarrow>
          (case validateId \<lparr>http_method = ''DELETE'', params_id = PString seg, body = Map.empty\<rparr> of
             Respond res \<Rightarrow> (res, m)
           | Next req \<Rightarrow> finish (delete e req m)))"

text \<open>Requests served one after the other, each with what it takes from outside.\<close>

fun serve_all ::
  "(environment \<times> api_request) list \<Rightarrow> MongoConnection \<Rightarrow> http_response list \<times> MongoConnection" where
  "serve_all [] m = ([], m)"
| "serve_all ((e, r) # rest) m =
     (case router e r m of
        (res, m1) \<Rightarrow> (case serve_all rest m1 of (ress, m2) \<Rightarrow> (res # ress, m2)))"

section \<open>What the middlewares accept\<close>

text \<open>
  A body is accepted for a verb when \<open>validateToDo\<close> calls \<open>next()\<close> on it, a path
  segment when \<open>validateId\<close> does; a request fails validation when one of the
  middlewares of its route answers it.
\<close>

definition accepted_body :: "string \<Rightarrow> (string \<Rightarrow> jsval option) \<Rightarrow> bool" where
  "accepted_body verb b =
     (case validateToDo \<lparr>http_method = verb, params_id = PUndefined, body = b\<rparr> of
        Next req \<Rightarrow> True
      | Respond res \<Rightarrow> False)"

definition accepted_id :: "string \<Rightarrow> bool" where
  "accepted_id seg =
     (case validateId \<lparr>http_method = ''GET'', params_id = PString seg, body = Map.empty\<rparr> of
        Next req \<Rightarrow> True
      | Respond res \<Rightarrow> False)"

definition fails_validation :: "api_request \<Rightarrow> bool" where
  "fails_validation r =
     (case r of
        GET_all \<Rightarrow> False
      | GET seg \<Rightarrow> \<not> accepted_id seg
      | POST b \<Rightarrow> \<not> accepted_body ''POST'' b
      | PUT seg b \<Rightarrow> \<not> accepted_id seg \<or> \<not> accepted_body ''PUT'' b
      | DELETE seg \<Rightarrow> \<not> accepted_id seg)"

text \<open>The ids of the stored documents, in the order the collection lists them.\<close>

definition ids :: "MongoConnection \<Rightarrow> int list" where
  "ids m = map doc_id (documents m)"

text \<open>The create requests among the requests of the interface.\<close>

definition is_create :: "api_request \<Rightarrow> bool" where
  "is_create r = (case r of POST b \<Rightarrow> True | _ \<Rightarrow> False)"

text \<open>
  The id a controller method computes for a path segment that \<open>validateId\<close> let through:
  its own \<open>parseInt\<close> of the number \<open>validateId\<close> left in the request. The updates and
  deletes directed at the task with a given id are those for which it is that id.
\<close>

definition controller_id :: "string \<Rightarrow> number" where
  "controller_id seg = parseInt_param (PNumber (parseInt seg))"

definition touches :: "int \<Rightarrow> api_request \<Rightarrow> bool" where
  "touches n r =
     (case r of
        PUT seg b \<Rightarrow> controller_id seg = Num n
      | DELETE seg \<Rightarrow> controller_id seg = Num n
      | _ \<Rightarrow> False)"

text \<open>The integers a double holds exactly, with their neighbours: those below \<open>2^53\<close>.\<close>

definition safe_integer :: "int \<Rightarrow> bool" where
  "safe_integer n = (abs n < 2 ^ 53)"

text \<open>
  Ids that leave room for \<open>k\<close> further creates: each of them, and each of them plus \<open>k\<close>,
  is below \<open>2^53\<close> in magnitude, so that the next \<open>k\<close> sums \<open>max + 1\<close> are exact.
\<close>

definition room :: "nat \<Rightarrow> int list \<Rightarrow> bool" where
  "room k xs = (int k < 2 ^ 53 \<and> (\<forall>i\<in>set xs. - (2 ^ 53) < i \<and> i + int k < 2 ^ 53))"

section \<open>Doubles, and printing a number and parsing it back\<close>

text \<open>
  The controller calls \<open>parseInt\<close> on \<open>req.params.id\<close> again after \<open>validateId\<close> has stored
  a number there: the number is printed and parsed back. Below \<open>2^53\<close> in magnitude an
  integer is a double, is printed with all its digits, and parses to itself.
\<close>

declare bitLength.simps [simp del]
declare digits10.simps [simp del]

lemma bitLength_0: "bitLength 0 = 0"
  by (simp add: bitLength.simps)

lemma bitLength_Suc_0: "bitLength (Suc 0) = 1"
  by (simp add: bitLength.simps [of "Suc 0"] bitLength_0)

lemma bitLength_1: "bitLength 1 = 1"
  using bitLength_Suc_0 by simp

lemma bitLength_One: "bitLength (numeral num.One) = 1"
  using bitLength_1 by simp

lemma bitLength_Bit0: "bitLength (numeral (num.Bit0 k)) = bitLength (numeral k) + 1"
  by (subst bitLength.simps) simp

lemma bitLength_Bit1: "bitLength (numeral (num.Bit1 k)) = bitLength (numeral k) + 1"
  by (subst bitLength.simps) simp

lemmas bitLength_numeral =
  bitLength_0 bitLength_Suc_0 bitLength_1 bitLength_One bitLength_Bit0 bitLength_Bit1

lemma bitLength_bounds: "0 < n \<Longrightarrow> 2 ^ (bitLength n - 1) \<le> n \<and> n < 2 ^ bitLength n"
proof (induction n rule: bitLength.induct)
  case (1 n)
  show ?case
  proof (cases "n div 2 = 0")
    case True
    with "1.prems" have "n = 1" by auto
    then show ?thesis by (simp add: bitLength_Suc_0)
  next
    case False
    with "1.IH" "1.prems" have ih: "2 ^ (bitLength (n div 2) - 1) \<le> n div 2"
      "n div 2 < 2 ^ bitLength (n div 2)" by auto
    have pos: "0 < bitLength (n div 2)" using False by (simp add: bitLength.simps [of "n div 2"])
    from "1.prems" have b: "bitLength n = Suc (bitLength (n div 2))"
      by (simp add: bitLength.simps [of n])
    have "(2::nat) ^ bitLength (n div 2) = 2 * 2 ^ (bitLength (n div 2) - 1)"
      using pos by (cases "bitLength (n div 2)") auto
    with ih have "2 ^ bitLength (n div 2) \<le> n" by linarith
    moreover from ih(2) have "n < 2 * 2 ^ bitLength (n div 2)" by linarith
    ultimately show ?thesis by (simp add: b)
  qed
qed

lemma roundDouble_small: "x < 2 ^ 53 \<Longrightarrow> roundDouble x = x"
  by (simp add: roundDouble_def)

lemma roundDouble_large:
  assumes "2 ^ 53 \<le> x"
  shows "2 ^ 53 \<le> roundDouble x"
proof -
  define e where "e = bitLength x - 53"
  define q :: nat where "q = 2 ^ e"
  have pos: "0 < x" using assms by (metis less_le_trans zero_less_numeral zero_less_power)
  from bitLength_bounds [OF pos] have lo: "2 ^ (bitLength x - 1) \<le> x" and hi: "x < 2 ^ bitLength x"
    by auto
  have "(2::nat) ^ 53 < 2 ^ bitLength x" using assms hi by linarith
  then have b: "53 < bitLength x"
    using power_strict_increasing_iff [of "2::nat" 53 "bitLength x"] by simp
  then have "bitLength x - 1 = 52 + e" and e1: "1 \<le> e" by (simp_all add: e_def)
  with lo have "2 ^ 52 * q \<le> x" by (simp add: q_def power_add)
  then have m: "2 ^ 52 \<le> x div q"
    by (metis div_le_mono nonzero_mult_div_cancel_right power_not_zero q_def zero_neq_numeral)
  have "(2::nat) ^ 1 \<le> 2 ^ e" using e1 by (rule power_increasing) simp
  then have q2: "2 \<le> q" by (simp add: q_def)
  have "(2::nat) ^ 53 = 2 ^ 52 * 2" by simp
  also have "\<dots> \<le> (x div q) * q" using m q2 by (rule mult_le_mono)
  finally have base: "2 ^ 53 \<le> (x div q) * q" .
  have "(x div q) * q \<le> (x div q + 1) * q" by simp
  with base have up: "2 ^ 53 \<le> (x div q + 1) * q" by linarith
  from assms have "\<not> x < 2 ^ 53" by simp
  then show ?thesis
    using base up by (simp add: roundDouble_def Let_def e_def [symmetric] q_def [symmetric])
qed

lemma roundDouble_eq_small: "roundDouble v = x \<Longrightarrow> x < 2 ^ 53 \<Longrightarrow> v = x"
  using roundDouble_large [of v] roundDouble_small [of v] by (cases "v < 2 ^ 53") auto

lemma roundInt_safe: "safe_integer n \<Longrightarrow> roundInt n = n"
  by (auto simp: roundInt_def safe_integer_def roundDouble_small nat_less_iff sgn_if)

lemma toNumber_safe: "safe_integer n \<Longrightarrow> toNumber n = Num n"
proof -
  assume s: "safe_integer n"
  then have "nat (abs n) < 2 ^ 53" by (simp add: safe_integer_def nat_less_iff)
  moreover have "(2::nat) ^ 53 < 2 ^ 1024" by simp
  ultimately have "roundDouble (nat (abs n)) < 2 ^ 1024"
    by (simp add: roundDouble_small del: power_strict_increasing_iff)
  with s show ?thesis by (simp add: toNumber_def roundInt_safe)
qed

lemma shortestFrom_valid: "roundDouble x = x \<Longrightarrow> roundDouble (shortestFrom x p) = x"
  by (induction p) (auto simp: Let_def)

lemma shortest_small: "x < 2 ^ 53 \<Longrightarrow> shortest x = x"
  unfolding shortest_def
  by (rule roundDouble_eq_small [OF shortestFrom_valid]) (simp_all add: roundDouble_small)

lemma length_digits10: "0 < k \<Longrightarrow> x < 10 ^ k \<Longrightarrow> length (digits10 x) \<le> k"
proof (induction x arbitrary: k rule: digits10.induct)
  case (1 n)
  show ?case
  proof (cases "n < 10")
    case True
    with "1.prems" show ?thesis by (subst digits10.simps) simp
  next
    case False
    with "1.prems" obtain j where k: "k = Suc j" and j: "0 < j"
      by (cases k; cases "k - 1") auto
    from "1.prems"(2) k have "n div 10 < 10 ^ j" by (simp add: less_mult_imp_div_less mult.commute)
    with "1.IH" False j have "length (digits10 (n div 10)) \<le> j" by simp
    with False k show ?thesis by (subst digits10.simps) simp
  qed
qed

lemma NumberToString_small: "x < 2 ^ 53 \<Longrightarrow> NumberToString x = digits10 x"
proof -
  assume x: "x < 2 ^ 53"
  have "(2::nat) ^ 53 < 10 ^ 21" by simp
  with x have "x < 10 ^ 21" by linarith
  then have "length (digits10 x) \<le> 21" by (intro length_digits10) simp_all
  with x show ?thesis by (simp add: NumberToString_def shortest_small)
qed

lemma digits10_not_Nil: "digits10 n \<noteq> []"
  by (subst digits10.simps) simp

lemma digits10_decimal:
  "c \<in> set (digits10 n) \<Longrightarrow> 48 \<le> (of_char c :: nat) \<and> (of_char c :: nat) \<le> 57"
proof (induction n arbitrary: c rule: digits10.induct)
  case (1 n)
  show ?case
  proof (cases "n < 10")
    case True
    with "1.prems" have "c = char_of (48 + n)"
      by (subst (asm) digits10.simps) simp
    with True show ?thesis by simp
  next
    case False
    with "1.prems" have "c \<in> set (digits10 (n div 10)) \<or> c = char_of (48 + n mod 10)"
      by (subst (asm) digits10.simps) auto
    then show ?thesis
    proof
      assume "c \<in> set (digits10 (n div 10))"
      with False "1.IH" show ?thesis by blast
    next
      assume c: "c = char_of (48 + n mod 10)"
      have "48 + n mod 10 < 256" by simp
      with c show ?thesis by (simp add: mod_less)
    qed
  qed
qed

lemma digitValue_decimal:
  "48 \<le> (of_char c :: nat) \<Longrightarrow> (of_char c :: nat) \<le> 57 \<Longrightarrow> digitValue c = of_char c - 48"
  by (simp add: digitValue_def)

lemma mathInt_snoc: "mathInt R (Z @ [c]) = mathInt R Z * R + digitValue c"
  by (simp add: mathInt_def)

lemma digitValue_char_of: "k < 10 \<Longrightarrow> digitValue (char_of (48 + k)) = k"
  by (simp add: digitValue_def)

lemma mathInt_digits10: "mathInt 10 (digits10 n) = n"
proof (induction n rule: digits10.induct)
  case (1 n)
  show ?case
  proof (cases "n < 10")
    case True
    then show ?thesis
      by (subst digits10.simps) (simp add: mathInt_def digitValue_char_of)
  next
    case False
    with "1.IH" have "mathInt 10 (digits10 (n div 10)) = n div 10" by simp
    with False show ?thesis
      by (subst digits10.simps) (simp add: mathInt_snoc digitValue_char_of)
  qed
qed

lemma parseInt_decimal:
  assumes ne: "Z \<noteq> []"
    and dec: "\<And>c. c \<in> set Z \<Longrightarrow> 48 \<le> (of_char c :: nat) \<and> (of_char c :: nat) \<le> 57"
  shows "parseInt Z = toNumber (int (mathInt 10 Z))"
    and "parseInt (CHR ''-'' # Z) = toNumber (- int (mathInt 10 Z))"
proof -
  from ne obtain c cs where Z: "Z = c # cs" by (cases Z) auto
  have c: "48 \<le> (of_char c :: nat) \<and> (of_char c :: nat) \<le> 57" using dec Z by simp
  have nws: "\<not> isWhiteSpace c" using c by (auto simp: isWhiteSpace_def)
  have nsign: "c \<noteq> CHR ''-''" "c \<noteq> CHR ''+''" using c by auto
  have dw: "dropWhile isWhiteSpace Z = Z" using nws Z by simp
  have sg: "(case Z of [] \<Rightarrow> 1 | c # cs \<Rightarrow> if c = CHR ''-'' then - 1 else (1 :: int)) = 1"
    using nsign Z by simp
  have s1: "(case Z of [] \<Rightarrow> Z | c # cs \<Rightarrow> if c = CHR ''+'' \<or> c = CHR ''-'' then cs else Z) = Z"
    using nsign Z by simp
  have "\<And>d. d \<in> set (take 2 Z) \<Longrightarrow> d \<noteq> CHR ''x'' \<and> d \<noteq> CHR ''X''"
    using dec by (fastforce dest: in_set_takeD)
  then have nhex: "\<not> (take 2 Z = ''0x'' \<or> take 2 Z = ''0X'')" by fastforce
  have "\<And>d. d \<in> set Z \<Longrightarrow> radixDigit 10 d"
  proof -
    fix d assume "d \<in> set Z"
    then have "48 \<le> (of_char d :: nat) \<and> (of_char d :: nat) \<le> 57" by (rule dec)
    then show "radixDigit 10 d" by (simp add: radixDigit_def digitValue_def) arith
  qed
  then have all: "takeWhile (radixDigit 10) Z = Z"
    by (simp add: takeWhile_eq_all_conv)
  show "parseInt Z = toNumber (int (mathInt 10 Z))"
    unfolding parseInt_def Let_def dw sg s1 using nhex ne by (simp add: all)
  have dw': "dropWhile isWhiteSpace (CHR ''-'' # Z) = CHR ''-'' # Z"
    by (simp add: isWhiteSpace_def)
  show "parseInt (CHR ''-'' # Z) = toNumber (- int (mathInt 10 Z))"
    unfolding parseInt_def Let_def dw' using nhex ne by (simp add: all)
qed

lemma parseInt_ToString:
  assumes "safe_integer n"
  shows "parseInt (ToString (Num n)) = Num n"
proof (cases "n < 0")
  case True
  from assms have small: "nat (- n) < 2 ^ 53" by (simp add: safe_integer_def nat_less_iff)
  have "parseInt (CHR ''-'' # digits10 (nat (- n))) = toNumber (- int (mathInt 10 (digits10 (nat (- n)))))"
    by (rule parseInt_decimal(2)[OF digits10_not_Nil digits10_decimal])
  with True assms show ?thesis
    by (simp add: ToString_def NumberToString_small [OF small] mathInt_digits10 toNumber_safe)
next
  case False
  from assms have small: "nat n < 2 ^ 53" by (simp add: safe_integer_def nat_less_iff)
  have "parseInt (digits10 (nat n)) = toNumber (int (mathInt 10 (digits10 (nat n))))"
    by (rule parseInt_decimal(1)[OF digits10_not_Nil digits10_decimal])
  with False assms show ?thesis
    by (simp add: ToString_def NumberToString_small [OF small] mathInt_digits10 toNumber_safe)
qed

text \<open>
  From \<open>10^21\<close> on a number is printed with an exponent, and \<open>parseInt\<close> reads only the
  digits before the point or the \<open>e\<close>: the controller's parse of the number
  \<open>validateId\<close> read from the 22 digits of \<open>10^21\<close> is 1.
\<close>

lemma shortestFrom_numeral:
  "shortestFrom x (numeral k) =
     (let q = 10 ^ numeral k; lo = (x div q) * q; hi = lo + q;
          okLo = (roundDouble lo = x); okHi = (roundDouble hi = x)
      in if okLo \<and> okHi
           then (if x - lo < hi - x then lo
                 else if hi - x < x - lo then hi
                 else if even (x div q) then lo else hi)
         else if okLo then lo
         else if okHi then hi
         else shortestFrom x (pred_numeral k))"
  by (simp add: numeral_eq_Suc)

lemma parseInt_10_21: "parseInt ''1000000000000000000000'' = Num 1000000000000000000000"
  by (simp add: parseInt_def isWhiteSpace_def radixDigit_def digitValue_def mathInt_def
      toNumber_def roundInt_def roundDouble_def bitLength_numeral Let_def)

lemma ToString_10_21: "ToString (Num 1000000000000000000000) = ''1e+21''"
  by (simp add: ToString_def NumberToString_def shortest_def shortestFrom_numeral
      exponential_def roundDouble_def bitLength_numeral Let_def digits10.simps char_of_def bit_0)

lemma parseInt_1e21: "parseInt ''1e+21'' = Num 1"
  by (simp add: parseInt_def isWhiteSpace_def radixDigit_def digitValue_def mathInt_def
      toNumber_def roundInt_def roundDouble_def Let_def)

lemma roundInt_2_53_1: "roundInt 9007199254740993 = 9007199254740992"
  by (simp add: roundInt_def roundDouble_def bitLength_numeral Let_def)

section \<open>Auxiliary facts\<close>

subsection \<open>Middlewares\<close>

lemma parseInt_param_PNumber:
  "safe_integer n \<Longrightarrow> parseInt_param (PNumber (Num n)) = Num n"
  by (simp add: parseInt_param_def parseInt_ToString)

lemma controller_id_safe:
  "parseInt seg = Num n \<Longrightarrow> safe_integer n \<Longrightarrow> controller_id seg = Num n"
  by (simp add: controller_id_def parseInt_param_PNumber)

lemma validateId_PString:
  "validateId \<lparr>http_method = verb, params_id = PString seg, body = b\<rparr> =
     (if parseInt seg = NaN then Respond (Response 400 (error_body msg_invalid_id))
      else Next \<lparr>http_method = verb, params_id = PNumber (parseInt seg), body = b\<rparr>)"
  by (simp add: validateId_def parseInt_param_def isNaN_def Let_def)

lemma accepted_id_iff: "accepted_id seg \<longleftrightarrow> parseInt seg \<noteq> NaN"
  by (simp add: accepted_id_def validateId_PString)

lemma validateToDo_cases:
  "validateToDo req =
     (if accepted_body (http_method req) (body req) then Next req
      else Respond (Response 400 (error_body
             (if http_method req = ''POST'' \<and> \<not> truthy (body req ''title'') then msg_title_required
              else if truthy (body req ''title'') \<and> typeof (body req ''title'') \<noteq> ''string''
                then msg_title_string
              else msg_completed_boolean))))"
  by (simp add: accepted_body_def validateToDo_def Let_def)

lemma truthy_string_iff:
  "truthy v \<and> typeof v = ''string'' \<longleftrightarrow> (\<exists>t. v = Some (JStr t) \<and> t \<noteq> [])"
  by (cases v rule: truthy.cases) auto

lemma typeof_boolean_iff: "typeof v = ''boolean'' \<longleftrightarrow> (\<exists>c. v = Some (JBool c))"
  by (cases v rule: typeof.cases) auto

lemma typeof_string_iff: "typeof v = ''string'' \<longleftrightarrow> (\<exists>t. v = Some (JStr t))"
  by (cases v rule: typeof.cases) auto

lemma accepted_body_POST_iff:
  "accepted_body ''POST'' b \<longleftrightarrow>
     (\<exists>t. b ''title'' = Some (JStr t) \<and> t \<noteq> []) \<and>
     (b ''completed'' = None \<or> (\<exists>c. b ''completed'' = Some (JBool c)))"
proof -
  have "accepted_body ''POST'' b \<longleftrightarrow>
          (truthy (b ''title'') \<and> typeof (b ''title'') = ''string'') \<and>
          (b ''completed'' = None \<or> typeof (b ''completed'') = ''boolean'')"
    by (auto simp: accepted_body_def validateToDo_def Let_def)
  then show ?thesis by (simp only: truthy_string_iff typeof_boolean_iff)
qed

lemma accepted_body_PUT_iff:
  "accepted_body ''PUT'' b \<longleftrightarrow>
     (\<not> truthy (b ''title'') \<or> (\<exists>t. b ''title'' = Some (JStr t))) \<and>
     (b ''completed'' = None \<or> (\<exists>c. b ''completed'' = Some (JBool c)))"
proof -
  have "accepted_body ''PUT'' b \<longleftrightarrow>
          (\<not> truthy (b ''title'') \<or> typeof (b ''title'') = ''string'') \<and>
          (b ''completed'' = None \<or> typeof (b ''completed'') = ''boolean'')"
    by (auto simp: accepted_body_def validateToDo_def Let_def)
  then show ?thesis by (simp only: typeof_string_iff typeof_boolean_iff)
qed

subsection \<open>Primitives that go through\<close>

lemma connect_healthy:
  "healthy e \<Longrightarrow>
   ToDoController_connect e m = (Inr (), m\<lparr>collection := True, invoked := invoked m @ [Connect]\<rparr>)"
  by (simp add: ToDoController_connect_def connect_def enter_def healthy_def)

lemma getAllToDos_healthy:
  "healthy e \<Longrightarrow> collection m \<Longrightarrow>
   getAllToDos e m = (Inr (documents m), m\<lparr>invoked := invoked m @ [ListAll]\<rparr>)"
  by (simp add: getAllToDos_def enter_def healthy_def)

lemma insertToDo_healthy:
  "healthy e \<Longrightarrow> collection m \<Longrightarrow>
   insertToDo e t m =
     (Inr (fresh_oid e),
      m\<lparr>documents := documents m @
           [\<lparr>doc_oid = fresh_oid e, doc_id = todo_id t, doc_title = bson_value (todo_title t),
             doc_completed = todo_completed t\<rparr>],
        invoked := invoked m @ [Insert]\<rparr>)"
  by (simp add: insertToDo_def enter_def healthy_def)

lemma updateToDo_healthy:
  "healthy e \<Longrightarrow> collection m \<Longrightarrow>
   updateToDo e i u m =
     (Inr (updateOne i u (documents m)),
      m\<lparr>documents := update_first (matches i) (set_fields u) (documents m),
        invoked := invoked m @ [Update]\<rparr>)"
  by (simp add: updateToDo_def enter_def healthy_def)

lemma deleteToDo_healthy:
  "healthy e \<Longrightarrow> collection m \<Longrightarrow>
   deleteToDo e i m =
     (Inr (deletedCount i (documents m)),
      m\<lparr>documents := delete_first (matches i) (documents m),
        invoked := invoked m @ [Delete]\<rparr>)"
  by (simp add: deleteToDo_def enter_def healthy_def)

subsection \<open>Lists\<close>

lemma find_matches: "find (matches i) ds = find_by_id i ds"
proof -
  have "matches i = (\<lambda>t. Num (doc_id t) = i)" by (auto simp: matches_def)
  then show ?thesis by (simp add: find_by_id_def)
qed

lemma find_by_id_Some:
  "find_by_id i ds = Some d \<Longrightarrow> d \<in> set ds \<and> i = Num (doc_id d)"
  by (auto simp: find_by_id_def find_Some_iff)

lemma find_by_id_None_iff: "find_by_id i ds = None \<longleftrightarrow> (\<forall>d\<in>set ds. Num (doc_id d) \<noteq> i)"
  by (auto simp: find_by_id_def find_None_iff)

lemma doc_id_set_fields: "doc_id (set_fields u d) = doc_id d"
  by (simp add: set_fields_def)

lemma doc_oid_set_fields: "doc_oid (set_fields u d) = doc_oid d"
  by (simp add: set_fields_def)

lemma length_update_first: "length (update_first P f ds) = length ds"
  by (induction ds) auto

lemma map_doc_id_update_first:
  "map doc_id (update_first P (set_fields u) ds) = map doc_id ds"
  by (induction ds) (auto simp: doc_id_set_fields)

lemma update_first_nth:
  "k < length ds \<Longrightarrow> update_first P f ds ! k = ds ! k \<or> (P (ds ! k) \<and> update_first P f ds ! k = f (ds ! k))"
proof (induction ds arbitrary: k)
  case Nil
  then show ?case by simp
next
  case (Cons d ds)
  then show ?case by (cases k) auto
qed

lemma update_first_unchanged:
  "find P ds = None \<or> (\<exists>d. find P ds = Some d \<and> f d = d) \<Longrightarrow> update_first P f ds = ds"
  by (induction ds) (auto split: if_splits)

lemma find_update_first:
  "(\<And>d. P (f d) = P d) \<Longrightarrow> find P (update_first P f ds) = map_option f (find P ds)"
  by (induction ds) auto

lemma matches_set_fields: "matches i (set_fields u d) = matches i d"
  by (simp add: matches_def doc_id_set_fields)

lemma set_delete_first: "set (delete_first P ds) \<subseteq> set ds"
  by (induction ds) auto

lemma distinct_map_delete_first:
  "distinct (map f ds) \<Longrightarrow> distinct (map f (delete_first P ds))"
proof (induction ds)
  case Nil
  then show ?case by simp
next
  case (Cons d ds)
  have "f ` set (delete_first P ds) \<subseteq> f ` set ds"
    using set_delete_first [of P ds] by blast
  with Cons show ?case by auto
qed

lemma delete_first_unchanged: "find P ds = None \<Longrightarrow> delete_first P ds = ds"
  by (induction ds) (auto split: if_splits)

lemma find_delete_first_distinct:
  "distinct (map doc_id ds) \<Longrightarrow> find_by_id i (delete_first (matches i) ds) = None"
proof (induction ds)
  case Nil
  then show ?case by (simp add: find_by_id_def)
next
  case (Cons d ds)
  show ?case
  proof (cases "matches i d")
    case True
    from Cons.prems have "doc_id d \<notin> doc_id ` set ds" by simp
    moreover from True have "i = Num (doc_id d)" by (simp add: matches_def)
    ultimately have "\<forall>x\<in>set ds. Num (doc_id x) \<noteq> i"
      by (metis imageI number.inject)
    with True show ?thesis by (simp add: find_by_id_None_iff)
  next
    case False
    with Cons show ?thesis by (simp add: find_by_id_def matches_def)
  qed
qed

lemma fold_max_eq_Max: "fold max xs (x :: int) = Max (set (x # xs))"
  by (rule Max.set_eq_fold [symmetric])

lemma room_Suc: "room (Suc k) xs \<Longrightarrow> room k xs"
  by (auto simp: room_def)

lemma room_subset: "room k xs \<Longrightarrow> set ys \<subseteq> set xs \<Longrightarrow> room k ys"
  by (auto simp: room_def)

lemma newId_of_exact:
  assumes "room (Suc k) (map doc_id ds)" and "length ds \<le> argument_limit e"
  shows "newId_of e ds = Inr (if ds = [] then 1 else Max (set (map doc_id ds)) + 1)"
proof (cases ds)
  case Nil
  then show ?thesis by (simp add: newId_of_def)
next
  case (Cons d ds')
  define M where "M = Max (set (map doc_id ds))"
  have "M \<in> set (map doc_id ds)" unfolding M_def using Cons by (intro Max_in) simp_all
  with assms(1) have "- (2 ^ 53) < M" and "M + int (Suc k) < 2 ^ 53" by (auto simp: room_def)
  then have "safe_integer (M + 1)" by (simp add: safe_integer_def)
  then have "roundInt (M + 1) = M + 1" by (rule roundInt_safe)
  moreover have "fold max (map doc_id ds') (doc_id d) = M"
    unfolding M_def using Cons by (simp add: fold_max_eq_Max)
  ultimately show ?thesis using Cons assms(2) by (simp add: newId_of_def M_def)
qed

lemma newId_of_greater:
  assumes "newId_of e ds = Inr j" and "room (Suc k) (map doc_id ds)"
  shows "(\<forall>d\<in>set ds. doc_id d < j) \<and> room k (j # map doc_id ds)"
proof (cases ds)
  case Nil
  with assms show ?thesis by (auto simp: newId_of_def room_def)
next
  case (Cons d ds')
  define M where "M = Max (set (map doc_id ds))"
  have Min: "M \<in> set (map doc_id ds)" unfolding M_def using Cons by (intro Max_in) simp_all
  with assms(2) have b: "- (2 ^ 53) < M" "M + int (Suc k) < 2 ^ 53" by (auto simp: room_def)
  then have "safe_integer (M + 1)" by (simp add: safe_integer_def)
  then have r: "roundInt (M + 1) = M + 1" by (rule roundInt_safe)
  have f: "fold max (map doc_id ds') (doc_id d) = M"
    unfolding M_def using Cons by (simp add: fold_max_eq_Max)
  from assms(1) Cons have j: "j = M + 1"
    using r f by (simp add: newId_of_def split: if_splits)
  have le: "\<And>x. x \<in> set ds \<Longrightarrow> doc_id x \<le> M" unfolding M_def by simp
  have "\<forall>x\<in>set ds. doc_id x < j" using le j by fastforce
  moreover have "room k (j # map doc_id ds)"
    using assms(2) b j by (auto simp: room_def)
  ultimately show ?thesis by blast
qed

lemma modifiedCount_zero_unchanged:
  "modifiedCount (updateOne i u ds) = 0 \<Longrightarrow> update_first (matches i) (set_fields u) ds = ds"
  by (rule update_first_unchanged) (auto simp: updateOne_def split: option.splits if_splits)

lemma modifiedCount_zero_iff:
  "modifiedCount (updateOne i u ds) = 0 \<longleftrightarrow>
     (case find_by_id i ds of None \<Rightarrow> True | Some d \<Rightarrow> set_fields u d = d)"
  by (simp add: updateOne_def find_matches split: option.splits)

lemma deletedCount_zero_iff: "deletedCount i ds = 0 \<longleftrightarrow> find_by_id i ds = None"
  by (simp add: deletedCount_def find_matches split: option.splits)

subsection \<open>The routes when every primitive goes through\<close>

lemma router_GET_healthy:
  assumes "healthy e" and "parseInt seg \<noteq> NaN"
  shows "router e (GET seg) m =
           ((case find_by_id (controller_id seg) (documents m) of
               None \<Rightarrow> Response 404 (error_body msg_not_found)
             | Some d \<Rightarrow> Response 200 (Some (json_of_document d))),
            m\<lparr>collection := True, invoked := invoked m @ [Connect, ListAll]\<rparr>)"
  using assms
  by (simp add: router_def validateId_PString getById_def connect_healthy getAllToDos_healthy
      controller_id_def finish_def split: option.splits)

lemma router_POST_healthy:
  assumes "healthy e" and "accepted_body ''POST'' b" and "newId_of e (documents m) = Inr k"
  shows "router e (POST b) m =
           (Response 201
              (Some (json_of_ToDo
                 (new_ToDo k (b ''title'')
                    (Some (case b ''completed'' of None \<Rightarrow> JBool False | Some c \<Rightarrow> c))))),
            m\<lparr>collection := True,
              documents := documents m @
                [\<lparr>doc_oid = fresh_oid e, doc_id = k,
                  doc_title = bson_value (b ''title''),
                  doc_completed = (case b ''completed'' of None \<Rightarrow> JBool False | Some c \<Rightarrow> c)\<rparr>],
              invoked := invoked m @ [Connect, ListAll, Insert]\<rparr>)"
proof -
  from assms(2) have "truthy (b ''title'')"
    by (auto simp: accepted_body_POST_iff)
  with assms show ?thesis
    by (simp add: router_def validateToDo_cases create_def connect_healthy getAllToDos_healthy
        insertToDo_healthy finish_def Let_def new_ToDo_def)
qed

lemma router_POST_too_many:
  assumes "healthy e" and "accepted_body ''POST'' b" and "newId_of e (documents m) = Inl err"
  shows "router e (POST b) m =
           (errorHandler err, m\<lparr>collection := True, invoked := invoked m @ [Connect, ListAll]\<rparr>)"
proof -
  from assms(2) have "truthy (b ''title'')"
    by (auto simp: accepted_body_POST_iff)
  with assms show ?thesis
    by (simp add: router_def validateToDo_cases create_def connect_healthy getAllToDos_healthy
        finish_def Let_def)
qed

lemma router_PUT_healthy:
  assumes "healthy e" and "parseInt seg \<noteq> NaN" and "accepted_body ''PUT'' b"
  shows "router e (PUT seg b) m =
           (let u = \<lparr>upd_title = b ''title'', upd_completed = b ''completed''\<rparr>;
                ds = update_first (matches (controller_id seg)) (set_fields u) (documents m)
            in if modifiedCount (updateOne (controller_id seg) u (documents m)) = 0
               then (Response 404 (error_body msg_not_found),
                     m\<lparr>collection := True, documents := ds,
                       invoked := invoked m @ [Connect, Update]\<rparr>)
               else (Response 200 (map_option json_of_document (find_by_id (controller_id seg) ds)),
                     m\<lparr>collection := True, documents := ds,
                       invoked := invoked m @ [Connect, Update, ListAll]\<rparr>))"
  using assms
  by (simp add: router_def validateId_PString validateToDo_cases update_def connect_healthy
      updateToDo_healthy getAllToDos_healthy controller_id_def finish_def Let_def)

lemma router_DELETE_healthy:
  assumes "healthy e" and "parseInt seg \<noteq> NaN"
  shows "router e (DELETE seg) m =
           ((if deletedCount (controller_id seg) (documents m) = 0
             then Response 404 (error_body msg_not_found) else Response 204 None),
            m\<lparr>collection := True,
              documents := delete_first (matches (controller_id seg)) (documents m),
              invoked := invoked m @ [Connect, Delete]\<rparr>)"
  using assms
  by (simp add: router_def validateId_PString delete_def connect_healthy deleteToDo_healthy
      controller_id_def finish_def Let_def)

subsection \<open>What a request can do to the stored documents, whatever fails\<close>

lemma snd_finish: "snd (finish r) = snd r"
  by (cases r) (auto simp: finish_def split: outcome.splits)

lemma documents_connect: "documents (snd (ToDoController_connect e m)) = documents m"
  by (simp add: ToDoController_connect_def connect_def enter_def Let_def split: option.splits)

lemma documents_getAllToDos: "documents (snd (getAllToDos e m)) = documents m"
  by (simp add: getAllToDos_def enter_def Let_def split: option.splits)

lemma getAllToDos_result: "getAllToDos e m = (Inr todos, m') \<Longrightarrow> todos = documents m"
  by (auto simp: getAllToDos_def enter_def Let_def split: option.splits if_splits)

lemma documents_getAll: "documents (snd (getAll e req m)) = documents m"
proof -
  obtain r1 m1 where c: "ToDoController_connect e m = (r1, m1)" by force
  then have d1: "documents m1 = documents m" using documents_connect [of e m] by simp
  obtain r2 m2 where g: "getAllToDos e m1 = (r2, m2)" by force
  then have d2: "documents m2 = documents m1" using documents_getAllToDos [of e m1] by simp
  show ?thesis using c g d1 d2 by (simp add: getAll_def split: sum.splits)
qed

lemma documents_getById: "documents (snd (getById e req m)) = documents m"
proof -
  obtain r1 m1 where c: "ToDoController_connect e m = (r1, m1)" by force
  then have d1: "documents m1 = documents m" using documents_connect [of e m] by simp
  obtain r2 m2 where g: "getAllToDos e m1 = (r2, m2)" by force
  then have d2: "documents m2 = documents m1" using documents_getAllToDos [of e m1] by simp
  show ?thesis using c g d1 d2 by (simp add: getById_def Let_def split: sum.splits option.splits)
qed

lemma documents_insertToDo:
  "documents (snd (insertToDo e t m)) = documents m \<or>
   (\<exists>d. documents (snd (insertToDo e t m)) = documents m @ [d] \<and> doc_id d = todo_id t)"
  by (simp add: insertToDo_def enter_def Let_def split: option.splits)

lemma documents_create:
  "documents (snd (create e req m)) = documents m \<or>
   (\<exists>d. documents (snd (create e req m)) = documents m @ [d] \<and>
        newId_of e (documents m) = Inr (doc_id d))"
proof -
  obtain r1 m1 where c: "ToDoController_connect e m = (r1, m1)" by force
  then have d1: "documents m1 = documents m" using documents_connect [of e m] by simp
  obtain r2 m2 where g: "getAllToDos e m1 = (r2, m2)" by force
  then have d2: "documents m2 = documents m" using documents_getAllToDos [of e m1] d1 by simp
  show ?thesis
  proof (cases r1)
    case (Inl err)
    with c d1 show ?thesis by (simp add: create_def)
  next
    case u: (Inr u)
    show ?thesis
    proof (cases "truthy (body req ''title'')")
      case False
      with c u d1 show ?thesis by (simp add: create_def Let_def)
    next
      case t: True
      show ?thesis
      proof (cases r2)
        case (Inl err)
        with c u t g d2 show ?thesis by (simp add: create_def Let_def)
      next
        case l: (Inr todos)
        with g d1 have todos: "todos = documents m" using getAllToDos_result by metis
        show ?thesis
        proof (cases "newId_of e (documents m)")
          case (Inl err)
          with c u t g l todos d2 show ?thesis by (simp add: create_def Let_def)
        next
          case k: (Inr k)
          define x where "x = new_ToDo k (body req ''title'')
              (Some (case body req ''completed'' of None \<Rightarrow> JBool False | Some c \<Rightarrow> c))"
          obtain r3 m3 where i: "insertToDo e x m2 = (r3, m3)" by force
          have "todo_id x = k" by (simp add: x_def new_ToDo_def)
          then have d3: "documents m3 = documents m \<or>
              (\<exists>d. documents m3 = documents m @ [d] \<and> doc_id d = k)"
            using documents_insertToDo [of e x m2] i d2 by simp
          have "snd (create e req m) = m3"
            using c u t g l todos k i
            by (simp add: create_def Let_def x_def [symmetric] split: sum.splits)
          with d3 k show ?thesis by auto
        qed
      qed
    qed
  qed
qed

lemma documents_updateToDo:
  "documents (snd (updateToDo e i u m)) = documents m \<or>
   documents (snd (updateToDo e i u m)) = update_first (matches i) (set_fields u) (documents m)"
  by (simp add: updateToDo_def enter_def Let_def split: option.splits)

lemma documents_update:
  "documents (snd (update e req m)) = documents m \<or>
   documents (snd (update e req m)) =
     update_first (matches (parseInt_param (params_id req)))
       (set_fields \<lparr>upd_title = body req ''title'', upd_completed = body req ''completed''\<rparr>)
       (documents m)"
proof -
  define i where "i = parseInt_param (params_id req)"
  define u where "u = \<lparr>upd_title = body req ''title'', upd_completed = body req ''completed''\<rparr>"
  obtain r1 m1 where c: "ToDoController_connect e m = (r1, m1)" by force
  then have d1: "documents m1 = documents m" using documents_connect [of e m] by simp
  obtain r2 m2 where g: "updateToDo e i u m1 = (r2, m2)" by force
  then have d2: "documents m2 = documents m \<or>
      documents m2 = update_first (matches i) (set_fields u) (documents m)"
    using documents_updateToDo [of e i u m1] d1 by simp
  obtain r3 m3 where l: "getAllToDos e m2 = (r3, m3)" by force
  then have d3: "documents m3 = documents m2" using documents_getAllToDos [of e m2] by simp
  show ?thesis
    using c g l d1 d2 d3
    by (auto simp: update_def Let_def i_def [symmetric] u_def [symmetric] split: sum.splits)
qed

lemma documents_deleteToDo:
  "documents (snd (deleteToDo e i m)) = documents m \<or>
   documents (snd (deleteToDo e i m)) = delete_first (matches i) (documents m)"
  by (simp add: deleteToDo_def enter_def Let_def split: option.splits)

lemma documents_delete:
  "documents (snd (delete e req m)) = documents m \<or>
   documents (snd (delete e req m)) =
     delete_first (matches (parseInt_param (params_id req))) (documents m)"
proof -
  define i where "i = parseInt_param (params_id req)"
  obtain r1 m1 where c: "ToDoController_connect e m = (r1, m1)" by force
  then have d1: "documents m1 = documents m" using documents_connect [of e m] by simp
  obtain r2 m2 where g: "deleteToDo e i m1 = (r2, m2)" by force
  then have d2: "documents m2 = documents m \<or>
      documents m2 = delete_first (matches i) (documents m)"
    using documents_deleteToDo [of e i m1] d1 by simp
  show ?thesis
    using c g d1 d2
    by (auto simp: delete_def Let_def i_def [symmetric] split: sum.splits)
qed

section \<open>Path identifiers\<close>

lemma router_rejected_id:
  assumes "parseInt seg = NaN"
  shows "router e (GET seg) m = (Response 400 (error_body msg_invalid_id), m)"
    and "router e (PUT seg b) m = (Response 400 (error_body msg_invalid_id), m)"
    and "router e (DELETE seg) m = (Response 400 (error_body msg_invalid_id), m)"
  using assms by (simp_all add: router_def validateId_PString)

lemma router_accepted_id:
  assumes "parseInt seg \<noteq> NaN"
  shows "router e (GET seg) m =
           finish (getById e
             \<lparr>http_method = ''GET'', params_id = PNumber (parseInt seg), body = Map.empty\<rparr> m)"
    and "router e (PUT seg b) m =
           (case validateToDo
                   \<lparr>http_method = ''PUT'', params_id = PNumber (parseInt seg), body = b\<rparr> of
              Respond res \<Rightarrow> (res, m)
            | Next req \<Rightarrow> finish (update e req m))"
    and "router e (DELETE seg) m =
           finish (delete e
             \<lparr>http_method = ''DELETE'', params_id = PNumber (parseInt seg), body = Map.empty\<rparr> m)"
  using assms by (simp_all add: router_def validateId_PString)

lemma parseInt_abc: "parseInt ''abc'' = NaN"
  by (simp add: parseInt_def isWhiteSpace_def radixDigit_def digitValue_def mathInt_def)

lemma parseInt_42abc: "parseInt ''42abc'' = Num 42"
  by (simp add: parseInt_def isWhiteSpace_def radixDigit_def digitValue_def mathInt_def
      toNumber_def roundInt_def roundDouble_def Let_def)

lemma parseInt_Infinity: "parseInt (ToString PosInfinity) = NaN"
  by (simp add: ToString_def parseInt_def isWhiteSpace_def radixDigit_def digitValue_def
      mathInt_def)

lemma roundDouble_ge_power:
  assumes "2 ^ k \<le> x" and "53 \<le> k"
  shows "2 ^ k \<le> roundDouble x"
proof -
  define e where "e = bitLength x - 53"
  define q :: nat where "q = 2 ^ e"
  have pos: "0 < x" using assms(1) by (metis less_le_trans zero_less_numeral zero_less_power)
  from bitLength_bounds [OF pos] have lo: "2 ^ (bitLength x - 1) \<le> x" and hi: "x < 2 ^ bitLength x"
    by auto
  have "(2::nat) ^ k < 2 ^ bitLength x" using assms(1) hi by linarith
  then have b: "k < bitLength x"
    using power_strict_increasing_iff [of "2::nat" k "bitLength x"] by simp
  then have bl: "bitLength x - 1 = 52 + e" using assms(2) by (simp add: e_def)
  with lo have "2 ^ 52 * q \<le> x" by (simp add: q_def power_add)
  then have m: "2 ^ 52 \<le> x div q"
    by (metis div_le_mono nonzero_mult_div_cancel_right power_not_zero q_def zero_neq_numeral)
  from b have "k \<le> bitLength x - 1" by simp
  then have "(2::nat) ^ k \<le> 2 ^ (bitLength x - 1)" by (rule power_increasing) simp
  also have "\<dots> = 2 ^ 52 * q" unfolding bl by (simp add: q_def power_add)
  also have "\<dots> \<le> (x div q) * q" using m by (rule mult_le_mono1)
  finally have base: "2 ^ k \<le> (x div q) * q" .
  have "(x div q) * q \<le> (x div q + 1) * q" by simp
  with base have up: "2 ^ k \<le> (x div q + 1) * q" by linarith
  have "(2::nat) ^ 53 \<le> 2 ^ k" using assms(2) by (rule power_increasing) simp
  with assms(1) have "\<not> x < 2 ^ 53" by linarith
  then show ?thesis
    using base up by (simp add: roundDouble_def Let_def e_def [symmetric] q_def [symmetric])
qed

lemma toNumber_overflow:
  assumes "2 ^ 1024 \<le> nat (abs x)"
  shows "toNumber x = (if x < 0 then NegInfinity else PosInfinity)"
  using roundDouble_ge_power [OF assms] by (simp add: toNumber_def)

lemma mathInt_replicate_0:
  "mathInt 10 (c # replicate k (CHR ''0'')) = digitValue c * 10 ^ k"
proof -
  have "foldl (\<lambda>acc c. acc * 10 + digitValue c) a (replicate k (CHR ''0'')) = a * 10 ^ k" for a
    by (induction k arbitrary: a) (simp_all add: digitValue_def)
  then show ?thesis by (simp add: mathInt_def)
qed

lemma parseInt_overflow: "parseInt (CHR ''2'' # replicate 308 (CHR ''0'')) = PosInfinity"
proof -
  have "parseInt (CHR ''2'' # replicate 308 (CHR ''0'')) =
        toNumber (int (mathInt 10 (CHR ''2'' # replicate 308 (CHR ''0''))))"
    by (rule parseInt_decimal) auto
  also have "\<dots> = PosInfinity"
    unfolding mathInt_replicate_0 by (simp add: toNumber_overflow digitValue_def)
  finally show ?thesis .
qed

text \<open>
  Claim C7, as stated, refuted. A path segment of 309 digits (a 2 and 308 zeros) is not refused: \<open>parseInt\<close>
  reads \<open>Infinity\<close> from it, which is not \<open>NaN\<close>, so \<open>validateId\<close> calls \<open>next()\<close> with
  \<open>req.params.id = Infinity\<close>, which is no integer; the controller's own
  \<open>parseInt(req.params.id)\<close> then reads \<open>NaN\<close> from the text \<open>Infinity\<close>, and the route answers
  404 where the claim has 400.
\<close>

theorem validateId_accepts_segment_read_as_Infinity:
  "parseInt (CHR ''2'' # replicate 308 (CHR ''0'')) = PosInfinity \<and>
   validateId
     \<lparr>http_method = ''GET'', params_id = PString (CHR ''2'' # replicate 308 (CHR ''0'')),
      body = Map.empty\<rparr> =
     Next \<lparr>http_method = ''GET'', params_id = PNumber PosInfinity, body = Map.empty\<rparr> \<and>
   parseInt_param (PNumber PosInfinity) = NaN \<and>
   fst (router \<lparr>fault = (\<lambda>p. None), fresh_oid = ''a1'', argument_limit = 65535\<rparr>
          (GET (CHR ''2'' # replicate 308 (CHR ''0'')))
          \<lparr>collection = False, documents = [], invoked = []\<rparr>) =
     Response 404 (error_body msg_not_found)"
proof -
  let ?Z = "(CHR ''2'' # replicate 308 (CHR ''0''))"
  have p: "parseInt ?Z = PosInfinity" by (rule parseInt_overflow)
  have c: "controller_id ?Z = NaN"
    unfolding controller_id_def p by (simp add: parseInt_param_def parseInt_Infinity)
  have v: "validateId \<lparr>http_method = ''GET'', params_id = PString ?Z, body = Map.empty\<rparr> =
     Next \<lparr>http_method = ''GET'', params_id = PNumber PosInfinity, body = Map.empty\<rparr>"
    unfolding validateId_PString p by simp
  have n: "parseInt ?Z \<noteq> NaN" unfolding p by simp
  have h: "healthy \<lparr>fault = (\<lambda>p. None), fresh_oid = ''a1'', argument_limit = 65535\<rparr>"
    by (simp add: healthy_def)
  have r: "fst (router \<lparr>fault = (\<lambda>p. None), fresh_oid = ''a1'', argument_limit = 65535\<rparr> (GET ?Z)
          \<lparr>collection = False, documents = [], invoked = []\<rparr>) =
     Response 404 (error_body msg_not_found)"
    unfolding router_GET_healthy [OF h n] c by (simp add: find_by_id_def)
  have i: "parseInt_param (PNumber PosInfinity) = NaN"
    by (simp add: parseInt_param_def parseInt_Infinity)
  from p v i r show ?thesis by (intro conjI)
qed

text \<open>
  Claim C7, amended. A request that carries a path identifier is answered 400 by
  \<open>validateId\<close>, with the store left alone, exactly when \<open>parseInt\<close> reads \<open>NaN\<close> from the
  segment; otherwise it is accepted, \<open>req.params.id\<close> holds the number \<open>parseInt\<close> read (an
  integer, or an infinity for an overlong segment), and the route runs the controller
  method on that request. When the number is an integer below \<open>2^53\<close> in magnitude, the
  controller's own \<open>parseInt(req.params.id)\<close> reads the same integer again.
\<close>

theorem validateId_number_replaces_segment:
  assumes "params_id req = PString seg"
  shows "(parseInt seg = NaN \<longrightarrow>
            validateId req = Respond (Response 400 (error_body msg_invalid_id)) \<and>
            router e (GET seg) m = (Response 400 (error_body msg_invalid_id), m) \<and>
            router e (PUT seg b) m = (Response 400 (error_body msg_invalid_id), m) \<and>
            router e (DELETE seg) m = (Response 400 (error_body msg_invalid_id), m)) \<and>
         (parseInt seg \<noteq> NaN \<longrightarrow>
            validateId req = Next (req\<lparr>params_id := PNumber (parseInt seg)\<rparr>) \<and>
            router e (GET seg) m =
              finish (getById e
                \<lparr>http_method = ''GET'', params_id = PNumber (parseInt seg), body = Map.empty\<rparr> m) \<and>
            router e (PUT seg b) m =
              (case validateToDo
                      \<lparr>http_method = ''PUT'', params_id = PNumber (parseInt seg), body = b\<rparr> of
                 Respond res \<Rightarrow> (res, m)
               | Next req' \<Rightarrow> finish (update e req' m)) \<and>
            router e (DELETE seg) m =
              finish (delete e
                \<lparr>http_method = ''DELETE'', params_id = PNumber (parseInt seg), body = Map.empty\<rparr> m)) \<and>
         (\<forall>n. parseInt seg = Num n \<and> safe_integer n \<longrightarrow>
            parseInt_param (params_id (req\<lparr>params_id := PNumber (parseInt seg)\<rparr>)) = Num n)"
proof (intro conjI impI allI)
  assume "parseInt seg = NaN"
  with assms show "validateId req = Respond (Response 400 (error_body msg_invalid_id))"
    by (simp add: validateId_def parseInt_param_def isNaN_def)
next
  assume "parseInt seg \<noteq> NaN"
  with assms show "validateId req = Next (req\<lparr>params_id := PNumber (parseInt seg)\<rparr>)"
    by (simp add: validateId_def parseInt_param_def isNaN_def Let_def)
next
  fix n assume "parseInt seg = Num n \<and> safe_integer n"
  then show "parseInt_param (params_id (req\<lparr>params_id := PNumber (parseInt seg)\<rparr>)) = Num n"
    by (simp add: parseInt_param_PNumber)
qed (simp_all add: router_rejected_id router_accepted_id)

theorem validateId_number_replaces_segment_witness:
  "params_id \<lparr>http_method = ''GET'', params_id = PString ''abc'', body = Map.empty\<rparr> = PString ''abc'' \<and>
   parseInt ''abc'' = NaN \<and>
   validateId \<lparr>http_method = ''GET'', params_id = PString ''abc'', body = Map.empty\<rparr> =
     Respond (Response 400 (error_body msg_invalid_id)) \<and>
   parseInt ''42abc'' = Num 42 \<and> safe_integer 42 \<and>
   validateId \<lparr>http_method = ''GET'', params_id = PString ''42abc'', body = Map.empty\<rparr> =
     Next \<lparr>http_method = ''GET'', params_id = PNumber (Num 42), body = Map.empty\<rparr> \<and>
   parseInt_param (PNumber (Num 42)) = Num 42"
  using validateId_number_replaces_segment
          [of "\<lparr>http_method = ''GET'', params_id = PString ''abc'', body = Map.empty\<rparr>" "''abc''"]
        validateId_number_replaces_segment
          [of "\<lparr>http_method = ''GET'', params_id = PString ''42abc'', body = Map.empty\<rparr>" "''42abc''"]
  by (simp add: parseInt_abc parseInt_42abc safe_integer_def)

section \<open>Validation of bodies, and validation before the store\<close>

lemma router_rejected_body:
  assumes "\<not> accepted_body ''POST'' b"
  shows "status (fst (router e (POST b) m)) = 400 \<and> snd (router e (POST b) m) = m"
  using assms by (simp add: router_def validateToDo_cases)

lemma router_PUT_rejected_body:
  assumes "\<not> accepted_body ''PUT'' b"
  shows "status (fst (router e (PUT seg b) m)) = 400 \<and> snd (router e (PUT seg b) m) = m"
  using assms by (simp add: router_def validateId_PString validateToDo_cases)

lemma create_guard:
  assumes "fault e Connect = None" and "\<not> truthy (body req ''title'')"
  shows "fst (create e req m) = Sent (Response 400 (error_body msg_title_needed))"
  using assms
  by (simp add: create_def ToDoController_connect_def connect_def Let_def)

text \<open>
  Claim C8. A create request whose title is missing or empty, or present but not text, or
  whose \<open>completed\<close> is present but not a boolean, is answered 400 by the route and leaves the
  store as it was; a missing or empty title is refused whatever \<open>completed\<close> holds, and the
  controller's own test of the title answers 400 as well once \<open>connect\<close> has gone through.
\<close>

theorem create_rejects_invalid_body:
  assumes "b ''title'' = None \<or> b ''title'' = Some (JStr []) \<or>
           (\<exists>v. b ''title'' = Some v \<and> (\<forall>t. v \<noteq> JStr t)) \<or>
           (\<exists>v. b ''completed'' = Some v \<and> (\<forall>c. v \<noteq> JBool c))"
  shows "status (fst (router e (POST b) m)) = 400 \<and> snd (router e (POST b) m) = m \<and>
         ((b ''title'' = None \<or> b ''title'' = Some (JStr [])) \<and> fault e Connect = None \<and>
            body req = b \<longrightarrow>
          fst (create e req m) = Sent (Response 400 (error_body msg_title_needed)))"
proof -
  from assms have "\<not> accepted_body ''POST'' b"
    by (auto simp: accepted_body_POST_iff)
  then have "status (fst (router e (POST b) m)) = 400 \<and> snd (router e (POST b) m) = m"
    by (rule router_rejected_body)
  moreover have "fst (create e req m) = Sent (Response 400 (error_body msg_title_needed))"
    if "b ''title'' = None \<or> b ''title'' = Some (JStr [])" "fault e Connect = None" "body req = b"
  proof -
    from that have "\<not> truthy (body req ''title'')" by auto
    with that(2) show ?thesis by (rule create_guard)
  qed
  ultimately show ?thesis by blast
qed

theorem create_rejects_invalid_body_witness:
  "[''completed'' \<mapsto> JBool True] ''title'' = None \<and>
   status (fst (router \<lparr>fault = (\<lambda>p. None), fresh_oid = ''a1'', argument_limit = 65535\<rparr> (POST [''completed'' \<mapsto> JBool True])
                  \<lparr>collection = False, documents = [], invoked = []\<rparr>)) = 400 \<and>
   snd (router \<lparr>fault = (\<lambda>p. None), fresh_oid = ''a1'', argument_limit = 65535\<rparr> (POST [''completed'' \<mapsto> JBool True])
          \<lparr>collection = False, documents = [], invoked = []\<rparr>) =
     \<lparr>collection = False, documents = [], invoked = []\<rparr> \<and>
   fst (create \<lparr>fault = (\<lambda>p. None), fresh_oid = ''a1'', argument_limit = 65535\<rparr>
          \<lparr>http_method = ''POST'', params_id = PUndefined, body = [''completed'' \<mapsto> JBool True]\<rparr>
          \<lparr>collection = False, documents = [], invoked = []\<rparr>) =
     Sent (Response 400 (error_body msg_title_needed))"
  using create_rejects_invalid_body
          [of "[''completed'' \<mapsto> JBool True]" "\<lparr>fault = (\<lambda>p. None), fresh_oid = ''a1'', argument_limit = 65535\<rparr>"
              "\<lparr>collection = False, documents = [], invoked = []\<rparr>"
              "\<lparr>http_method = ''POST'', params_id = PUndefined, body = [''completed'' \<mapsto> JBool True]\<rparr>"]
  by simp

subsection \<open>The primitives a request invokes\<close>

lemma invoked_connect:
  "invoked (snd (ToDoController_connect e m)) = invoked m @ [Connect]"
  by (simp add: ToDoController_connect_def connect_def enter_def Let_def split: option.splits)

lemma invoked_finish_getAll:
  "\<exists>ps. invoked (snd (getAll e req m)) = invoked m @ Connect # ps"
proof -
  obtain r1 m1 where c: "ToDoController_connect e m = (r1, m1)" by force
  then have i1: "invoked m1 = invoked m @ [Connect]" using invoked_connect [of e m] by simp
  show ?thesis using c i1
    by (auto simp: getAll_def getAllToDos_def enter_def Let_def split: sum.splits option.splits)
qed

lemma invoked_getById:
  "\<exists>ps. invoked (snd (getById e req m)) = invoked m @ Connect # ps"
proof -
  obtain r1 m1 where c: "ToDoController_connect e m = (r1, m1)" by force
  then have i1: "invoked m1 = invoked m @ [Connect]" using invoked_connect [of e m] by simp
  show ?thesis using c i1
    by (auto simp: getById_def getAllToDos_def enter_def Let_def split: sum.splits option.splits)
qed

lemma invoked_create:
  "\<exists>ps. invoked (snd (create e req m)) = invoked m @ Connect # ps"
proof -
  obtain r1 m1 where c: "ToDoController_connect e m = (r1, m1)" by force
  then have i1: "invoked m1 = invoked m @ [Connect]" using invoked_connect [of e m] by simp
  show ?thesis using c i1
    by (auto simp: create_def getAllToDos_def insertToDo_def enter_def Let_def
        split: sum.splits option.splits)
qed

lemma invoked_update:
  "\<exists>ps. invoked (snd (update e req m)) = invoked m @ Connect # ps"
proof -
  obtain r1 m1 where c: "ToDoController_connect e m = (r1, m1)" by force
  then have i1: "invoked m1 = invoked m @ [Connect]" using invoked_connect [of e m] by simp
  show ?thesis using c i1
    by (auto simp: update_def getAllToDos_def updateToDo_def enter_def Let_def
        split: sum.splits option.splits)
qed

lemma invoked_delete:
  "\<exists>ps. invoked (snd (delete e req m)) = invoked m @ Connect # ps"
proof -
  obtain r1 m1 where c: "ToDoController_connect e m = (r1, m1)" by force
  then have i1: "invoked m1 = invoked m @ [Connect]" using invoked_connect [of e m] by simp
  show ?thesis using c i1
    by (auto simp: delete_def deleteToDo_def enter_def Let_def split: sum.splits option.splits)
qed

lemma router_passed_invokes_connect:
  assumes "\<not> fails_validation r"
  shows "\<exists>ps. invoked (snd (router e r m)) = invoked m @ Connect # ps"
proof (cases r)
  case GET_all
  then show ?thesis by (simp add: router_def snd_finish invoked_finish_getAll)
next
  case (GET seg)
  with assms have "parseInt seg \<noteq> NaN"
    by (auto simp: fails_validation_def accepted_id_iff)
  with GET show ?thesis by (simp add: router_accepted_id snd_finish invoked_getById)
next
  case (POST b)
  with assms have "accepted_body ''POST'' b" by (simp add: fails_validation_def)
  with POST show ?thesis by (simp add: router_def validateToDo_cases snd_finish invoked_create)
next
  case (PUT seg b)
  with assms have "parseInt seg \<noteq> NaN" and "accepted_body ''PUT'' b"
    by (auto simp: fails_validation_def accepted_id_iff)
  with PUT show ?thesis
    by (simp add: router_accepted_id validateToDo_cases snd_finish invoked_update)
next
  case (DELETE seg)
  with assms have "parseInt seg \<noteq> NaN"
    by (auto simp: fails_validation_def accepted_id_iff)
  with DELETE show ?thesis by (simp add: router_accepted_id snd_finish invoked_delete)
qed

lemma router_failed_validation:
  assumes "fails_validation r"
  shows "status (fst (router e r m)) = 400 \<and> snd (router e r m) = m"
proof (cases r)
  case GET_all
  with assms show ?thesis by (simp add: fails_validation_def)
next
  case (GET seg)
  with assms have "parseInt seg = NaN" by (simp add: fails_validation_def accepted_id_iff)
  with GET show ?thesis by (simp add: router_rejected_id)
next
  case (POST b)
  with assms have "\<not> accepted_body ''POST'' b" by (simp add: fails_validation_def)
  with POST show ?thesis by (simp add: router_rejected_body)
next
  case (PUT seg b)
  show ?thesis
  proof (cases "parseInt seg = NaN")
    case True
    with PUT show ?thesis by (simp add: router_rejected_id)
  next
    case False
    with assms PUT have "\<not> accepted_body ''PUT'' b"
      by (simp add: fails_validation_def accepted_id_iff)
    with PUT show ?thesis by (simp add: router_PUT_rejected_body)
  qed
next
  case (DELETE seg)
  with assms have "parseInt seg = NaN" by (simp add: fails_validation_def accepted_id_iff)
  with DELETE show ?thesis by (simp add: router_rejected_id)
qed

text \<open>
  Claim C9. A request that fails validation (a path segment \<open>validateId\<close> refuses, or a body
  \<open>validateToDo\<close> refuses on a create or an update) is answered 400 with the adapter left
  exactly as it was: no primitive has been invoked, whatever the outside would have
  done. A request that passes validation does reach the adapter, \<open>connect\<close> first.
\<close>

theorem validation_failure_precedes_store:
  "(fails_validation r \<longrightarrow>
      status (fst (router e r m)) = 400 \<and> snd (router e r m) = m \<and>
      invoked (snd (router e r m)) = invoked m) \<and>
   (\<not> fails_validation r \<longrightarrow>
      (\<exists>ps. invoked (snd (router e r m)) = invoked m @ Connect # ps))"
  using router_failed_validation [of r e m] router_passed_invokes_connect [of r e m]
  by auto

theorem validation_failure_precedes_store_witness:
  "fails_validation (GET ''abc'') \<and>
   router \<lparr>fault = (\<lambda>p. None), fresh_oid = ''a1'', argument_limit = 65535\<rparr> (GET ''abc'')
     \<lparr>collection = False, documents = [], invoked = []\<rparr> =
     (Response 400 (error_body msg_invalid_id), \<lparr>collection = False, documents = [], invoked = []\<rparr>) \<and>
   \<not> fails_validation GET_all \<and>
   invoked (snd (router \<lparr>fault = (\<lambda>p. None), fresh_oid = ''a1'', argument_limit = 65535\<rparr> GET_all
     \<lparr>collection = False, documents = [], invoked = []\<rparr>)) = [Connect, ListAll]"
proof -
  have f: "fails_validation (GET ''abc'')"
    by (simp add: fails_validation_def accepted_id_iff parseInt_abc)
  have "status (fst (router \<lparr>fault = (\<lambda>p. None), fresh_oid = ''a1'', argument_limit = 65535\<rparr> (GET ''abc'')
          \<lparr>collection = False, documents = [], invoked = []\<rparr>)) = 400 \<and>
        snd (router \<lparr>fault = (\<lambda>p. None), fresh_oid = ''a1'', argument_limit = 65535\<rparr> (GET ''abc'')
          \<lparr>collection = False, documents = [], invoked = []\<rparr>) =
          \<lparr>collection = False, documents = [], invoked = []\<rparr>"
    using f validation_failure_precedes_store
            [of "GET ''abc''" "\<lparr>fault = (\<lambda>p. None), fresh_oid = ''a1'', argument_limit = 65535\<rparr>"
                "\<lparr>collection = False, documents = [], invoked = []\<rparr>"]
    by simp
  moreover have "router \<lparr>fault = (\<lambda>p. None), fresh_oid = ''a1'', argument_limit = 65535\<rparr> (GET ''abc'')
       \<lparr>collection = False, documents = [], invoked = []\<rparr> =
       (Response 400 (error_body msg_invalid_id), \<lparr>collection = False, documents = [], invoked = []\<rparr>)"
    by (simp add: router_rejected_id parseInt_abc)
  moreover have "\<not> fails_validation GET_all" by (simp add: fails_validation_def)
  moreover have "invoked (snd (router \<lparr>fault = (\<lambda>p. None), fresh_oid = ''a1'', argument_limit = 65535\<rparr> GET_all
     \<lparr>collection = False, documents = [], invoked = []\<rparr>)) = [Connect, ListAll]"
    by (simp add: router_def getAll_def finish_def connect_healthy getAllToDos_healthy healthy_def)
  ultimately show ?thesis using f by simp
qed

section \<open>Identifiers stay distinct\<close>

lemma documents_router:
  "documents (snd (router e r m)) = documents m \<or>
   (\<exists>d. is_create r \<and> documents (snd (router e r m)) = documents m @ [d] \<and>
        newId_of e (documents m) = Inr (doc_id d)) \<or>
   (\<exists>i u. \<not> is_create r \<and>
        documents (snd (router e r m)) = update_first (matches i) (set_fields u) (documents m)) \<or>
   (\<exists>i. \<not> is_create r \<and>
        documents (snd (router e r m)) = delete_first (matches i) (documents m))"
proof (cases r)
  case GET_all
  then show ?thesis by (simp add: router_def snd_finish documents_getAll)
next
  case (GET seg)
  then show ?thesis
    by (simp add: router_def validateId_PString snd_finish documents_getById)
next
  case (POST b)
  show ?thesis
  proof (cases "accepted_body ''POST'' b")
    case True
    with POST have "snd (router e r m) =
        snd (create e \<lparr>http_method = ''POST'', params_id = PUndefined, body = b\<rparr> m)"
      by (simp add: router_def validateToDo_cases snd_finish)
    with POST documents_create [of e "\<lparr>http_method = ''POST'', params_id = PUndefined, body = b\<rparr>" m]
    show ?thesis by (auto simp: is_create_def)
  next
    case False
    with POST show ?thesis by (simp add: router_rejected_body)
  qed
next
  case (PUT seg b)
  show ?thesis
  proof (cases "parseInt seg = NaN")
    case True
    with PUT show ?thesis by (simp add: router_rejected_id)
  next
    case n: False
    show ?thesis
    proof (cases "accepted_body ''PUT'' b")
      case True
      with PUT n have "snd (router e r m) =
          snd (update e \<lparr>http_method = ''PUT'', params_id = PNumber (parseInt seg), body = b\<rparr> m)"
        by (simp add: router_accepted_id validateToDo_cases snd_finish)
      with PUT
        documents_update
          [of e "\<lparr>http_method = ''PUT'', params_id = PNumber (parseInt seg), body = b\<rparr>" m]
      show ?thesis by (auto simp: is_create_def)
    next
      case False
      with PUT show ?thesis by (simp add: router_PUT_rejected_body)
    qed
  qed
next
  case (DELETE seg)
  show ?thesis
  proof (cases "parseInt seg = NaN")
    case True
    with DELETE show ?thesis by (simp add: router_rejected_id)
  next
    case False
    with DELETE have "snd (router e r m) =
        snd (delete e
          \<lparr>http_method = ''DELETE'', params_id = PNumber (parseInt seg), body = Map.empty\<rparr> m)"
      by (simp add: router_accepted_id snd_finish)
    with DELETE
      documents_delete
        [of e "\<lparr>http_method = ''DELETE'', params_id = PNumber (parseInt seg), body = Map.empty\<rparr>" m]
    show ?thesis by (auto simp: is_create_def)
  qed
qed

lemma set_ids_router_other:
  assumes "\<not> is_create r"
  shows "set (ids (snd (router e r m))) \<subseteq> set (ids m)"
proof -
  from documents_router [of e r m] assms
  consider "documents (snd (router e r m)) = documents m"
    | i u where "documents (snd (router e r m)) =
        update_first (matches i) (set_fields u) (documents m)"
    | i where "documents (snd (router e r m)) = delete_first (matches i) (documents m)"
    by auto
  then show ?thesis
  proof cases
    case 1
    then show ?thesis by (simp add: ids_def)
  next
    case 2
    then show ?thesis by (simp add: ids_def map_doc_id_update_first)
  next
    case 3
    then show ?thesis using set_delete_first [of "matches i" "documents m"]
      by (auto simp: ids_def)
  qed
qed

lemma distinct_router_other:
  assumes "distinct (ids m)" and "\<not> is_create r"
  shows "distinct (ids (snd (router e r m)))"
proof -
  from documents_router [of e r m] assms(2)
  consider "documents (snd (router e r m)) = documents m"
    | i u where "documents (snd (router e r m)) =
        update_first (matches i) (set_fields u) (documents m)"
    | i where "documents (snd (router e r m)) = delete_first (matches i) (documents m)"
    by auto
  then show ?thesis
  proof cases
    case 1
    with assms show ?thesis by (simp add: ids_def)
  next
    case 2
    with assms show ?thesis by (simp add: ids_def map_doc_id_update_first)
  next
    case 3
    with assms show ?thesis by (simp add: ids_def distinct_map_delete_first)
  qed
qed

lemma router_create_cases:
  assumes "is_create r"
  obtains "documents (snd (router e r m)) = documents m"
  | d where "documents (snd (router e r m)) = documents m @ [d]"
      and "newId_of e (documents m) = Inr (doc_id d)"
  using documents_router [of e r m] assms by auto

lemma distinct_router:
  assumes "distinct (ids m)" and "room 1 (ids m)"
  shows "distinct (ids (snd (router e r m)))"
proof (cases "is_create r")
  case False
  with assms(1) show ?thesis by (rule distinct_router_other)
next
  case True
  then show ?thesis
  proof (cases rule: router_create_cases [of r e m])
    case 1
    with assms show ?thesis by (simp add: ids_def)
  next
    case (2 d)
    from assms(2) have "room (Suc 0) (map doc_id (documents m))" by (simp add: ids_def)
    from newId_of_greater [OF 2(2) this] have "\<forall>x\<in>set (documents m). doc_id x < doc_id d"
      by simp
    then have "doc_id d \<notin> doc_id ` set (documents m)" by fastforce
    with assms(1) 2(1) show ?thesis by (simp add: ids_def)
  qed
qed

lemma room_router:
  assumes "room (Suc k) (ids m)"
  shows "room k (ids (snd (router e r m)))"
proof (cases "is_create r")
  case False
  from room_subset [OF room_Suc [OF assms] set_ids_router_other [OF False]] show ?thesis .
next
  case True
  then show ?thesis
  proof (cases rule: router_create_cases [of r e m])
    case 1
    with room_Suc [OF assms] show ?thesis by (simp add: ids_def)
  next
    case (2 d)
    from assms have "room (Suc k) (map doc_id (documents m))" by (simp add: ids_def)
    from newId_of_greater [OF 2(2) this] have "room k (doc_id d # map doc_id (documents m))"
      by simp
    then show ?thesis using 2(1) by (auto simp: ids_def room_def)
  qed
qed

lemma room_router_other:
  assumes "room k (ids m)" and "\<not> is_create r"
  shows "room k (ids (snd (router e r m)))"
  using room_subset [OF assms(1) set_ids_router_other [OF assms(2)]] .

lemma snd_serve_all_Cons:
  "snd (serve_all ((e, r) # rest) m) = snd (serve_all rest (snd (router e r m)))"
  by (auto split: prod.splits)

lemma distinct_serve_all:
  assumes "distinct (ids m)"
    and "room (length (filter (\<lambda>x. is_create (snd x)) rs)) (ids m)"
  shows "distinct (ids (snd (serve_all rs m)))"
  using assms
proof (induction rs arbitrary: m)
  case Nil
  then show ?case by simp
next
  case (Cons x rs)
  obtain e r where x: "x = (e, r)" by force
  define m1 where "m1 = snd (router e r m)"
  define k where "k = length (filter (\<lambda>x. is_create (snd x)) rs)"
  have "distinct (ids m1) \<and> room k (ids m1)"
  proof (cases "is_create r")
    case True
    with Cons.prems(2) x have r: "room (Suc k) (ids m)" by (simp add: k_def)
    then have "room 1 (ids m)" by (auto simp: room_def)
    with Cons.prems(1) have "distinct (ids m1)" unfolding m1_def by (rule distinct_router)
    moreover from r have "room k (ids m1)" unfolding m1_def by (rule room_router)
    ultimately show ?thesis by simp
  next
    case False
    with Cons.prems(2) x have r: "room k (ids m)" by (simp add: k_def)
    from Cons.prems(1) False have "distinct (ids m1)"
      unfolding m1_def by (rule distinct_router_other)
    moreover from r False have "room k (ids m1)" unfolding m1_def by (rule room_router_other)
    ultimately show ?thesis by simp
  qed
  then have "distinct (ids (snd (serve_all rs m1)))"
    unfolding k_def using Cons.IH by blast
  with x show ?case by (simp add: snd_serve_all_Cons m1_def del: serve_all.simps)
qed

lemma creates_append_increasing:
  assumes "\<forall>x\<in>set cs. is_create (snd x)" and "room (length cs) (ids m)"
  shows "\<exists>new. documents (snd (serve_all cs m)) = documents m @ new \<and>
               sorted_wrt (<) (map doc_id new) \<and>
               (\<forall>d\<in>set new. \<forall>x\<in>set (documents m). doc_id x < doc_id d)"
  using assms
proof (induction cs arbitrary: m)
  case Nil
  then show ?case by simp
next
  case (Cons c cs)
  obtain e r where c: "c = (e, r)" by force
  define m1 where "m1 = snd (router e r m)"
  from Cons.prems c have cr: "is_create r" and rest: "\<forall>x\<in>set cs. is_create (snd x)" by auto
  from Cons.prems(2) have rm: "room (Suc (length cs)) (ids m)" by simp
  then have rm1: "room (length cs) (ids m1)" unfolding m1_def by (rule room_router)
  from Cons.IH [OF rest rm1] obtain new where
    new: "documents (snd (serve_all cs m1)) = documents m1 @ new"
      "sorted_wrt (<) (map doc_id new)"
      "\<forall>d\<in>set new. \<forall>x\<in>set (documents m1). doc_id x < doc_id d"
    by blast
  have s: "snd (serve_all (c # cs) m) = snd (serve_all cs m1)"
    using c by (simp add: snd_serve_all_Cons m1_def del: serve_all.simps)
  from cr show ?case
  proof (cases rule: router_create_cases [of r e m])
    case 1
    then have "documents m1 = documents m" by (simp add: m1_def)
    with new s show ?thesis by auto
  next
    case (2 d)
    then have d1: "documents m1 = documents m @ [d]" by (simp add: m1_def)
    from rm have "room (Suc (length cs)) (map doc_id (documents m))" by (simp add: ids_def)
    from newId_of_greater [OF 2(2) this]
    have dgt: "\<forall>x\<in>set (documents m). doc_id x < doc_id d" by simp
    have "documents (snd (serve_all (c # cs) m)) = documents m @ (d # new)"
      using s new(1) d1 by simp
    moreover have "sorted_wrt (<) (map doc_id (d # new))"
      using new(2) new(3) d1 by simp
    moreover have "\<forall>y\<in>set (d # new). \<forall>x\<in>set (documents m). doc_id x < doc_id y"
      using dgt new(3) d1 by simp
    ultimately show ?thesis by blast
  qed
qed

text \<open>
  Claim C2, as stated, refuted. The collection holds one task, whose id is \<open>2^53\<close>; its ids
  are pairwise distinct. A create then computes \<open>Math.max(2^53) + 1\<close>, which in doubles is
  \<open>2^53\<close> again, and stores a second task under the same id: the id assigned is not above
  the one that was there, and the ids are no longer distinct.
\<close>

theorem create_repeats_id_2_53:
  "distinct (ids \<lparr>collection = False,
       documents = [\<lparr>doc_oid = ''a1'', doc_id = 9007199254740992, doc_title = JStr ''x'',
                     doc_completed = JBool False\<rparr>],
       invoked = []\<rparr>) \<and>
   ids (snd (router \<lparr>fault = (\<lambda>p. None), fresh_oid = ''a2'', argument_limit = 65535\<rparr>
               (POST [''title'' \<mapsto> JStr ''z''])
               \<lparr>collection = False,
                documents = [\<lparr>doc_oid = ''a1'', doc_id = 9007199254740992, doc_title = JStr ''x'',
                              doc_completed = JBool False\<rparr>],
                invoked = []\<rparr>)) = [9007199254740992, 9007199254740992] \<and>
   \<not> distinct (ids (snd (router \<lparr>fault = (\<lambda>p. None), fresh_oid = ''a2'', argument_limit = 65535\<rparr>
               (POST [''title'' \<mapsto> JStr ''z''])
               \<lparr>collection = False,
                documents = [\<lparr>doc_oid = ''a1'', doc_id = 9007199254740992, doc_title = JStr ''x'',
                              doc_completed = JBool False\<rparr>],
                invoked = []\<rparr>)))"
proof -
  define m where "m = \<lparr>collection = False,
       documents = [\<lparr>doc_oid = ''a1'', doc_id = 9007199254740992, doc_title = JStr ''x'',
                     doc_completed = JBool False\<rparr>],
       invoked = []\<rparr>"
  define e where "e = \<lparr>fault = (\<lambda>p. None), fresh_oid = ''a2'', argument_limit = 65535\<rparr>"
  have h: "healthy e" by (simp add: healthy_def e_def)
  have a: "accepted_body ''POST'' [''title'' \<mapsto> JStr ''z'']"
    by (simp add: accepted_body_POST_iff)
  have k: "newId_of e (documents m) = Inr 9007199254740992"
    by (simp add: newId_of_def m_def e_def roundInt_2_53_1)
  have "ids (snd (router e (POST [''title'' \<mapsto> JStr ''z'']) m)) =
          [9007199254740992, 9007199254740992]"
    unfolding router_POST_healthy [OF h a k] by (simp add: ids_def m_def)
  then show ?thesis unfolding m_def e_def by (simp add: ids_def)
qed

text \<open>
  Claim C2, amended. From a collection whose ids are pairwise distinct, an update, a
  delete and a read leave the ids pairwise distinct; so does a create when every id, and
  every id plus one, is below \<open>2^53\<close> in magnitude; and so does every sequence of requests
  served one after the other when the ids leave that room for each of its creates. A
  sequence of creates for which the ids leave room appends its documents to the
  collection, and the ids it assigns are strictly increasing and above every id that was
  there.
\<close>

theorem ids_stay_distinct_while_sums_are_exact:
  assumes "distinct (ids m)"
  shows "(\<not> is_create r \<longrightarrow> distinct (ids (snd (router e r m)))) \<and>
         (room 1 (ids m) \<longrightarrow> distinct (ids (snd (router e r m)))) \<and>
         (room (length (filter (\<lambda>x. is_create (snd x)) rs)) (ids m) \<longrightarrow>
            distinct (ids (snd (serve_all rs m)))) \<and>
         ((\<forall>x\<in>set cs. is_create (snd x)) \<and> room (length cs) (ids m) \<longrightarrow>
            (\<exists>new. documents (snd (serve_all cs m)) = documents m @ new \<and>
                   sorted_wrt (<) (map doc_id new) \<and>
                   (\<forall>d\<in>set new. \<forall>x\<in>set (documents m). doc_id x < doc_id d)))"
  using assms distinct_router_other distinct_router distinct_serve_all creates_append_increasing
  by blast

theorem ids_stay_distinct_witness:
  "distinct (ids \<lparr>collection = False,
       documents = [\<lparr>doc_oid = ''a1'', doc_id = 3, doc_title = JStr ''x'', doc_completed = JBool False\<rparr>,
                    \<lparr>doc_oid = ''a2'', doc_id = 7, doc_title = JStr ''y'', doc_completed = JBool True\<rparr>],
       invoked = []\<rparr>) \<and>
   room 2 (ids \<lparr>collection = False,
       documents = [\<lparr>doc_oid = ''a1'', doc_id = 3, doc_title = JStr ''x'', doc_completed = JBool False\<rparr>,
                    \<lparr>doc_oid = ''a2'', doc_id = 7, doc_title = JStr ''y'', doc_completed = JBool True\<rparr>],
       invoked = []\<rparr>) \<and>
   \<not> is_create (DELETE ''3'') \<and>
   distinct (ids (snd (router \<lparr>fault = (\<lambda>p. None), fresh_oid = ''a3'', argument_limit = 65535\<rparr>
      (DELETE ''3'')
      \<lparr>collection = False,
       documents = [\<lparr>doc_oid = ''a1'', doc_id = 3, doc_title = JStr ''x'', doc_completed = JBool False\<rparr>,
                    \<lparr>doc_oid = ''a2'', doc_id = 7, doc_title = JStr ''y'', doc_completed = JBool True\<rparr>],
       invoked = []\<rparr>))) \<and>
   distinct (ids (snd (router \<lparr>fault = (\<lambda>p. None), fresh_oid = ''a3'', argument_limit = 65535\<rparr>
      (POST [''title'' \<mapsto> JStr ''z''])
      \<lparr>collection = False,
       documents = [\<lparr>doc_oid = ''a1'', doc_id = 3, doc_title = JStr ''x'', doc_completed = JBool False\<rparr>,
                    \<lparr>doc_oid = ''a2'', doc_id = 7, doc_title = JStr ''y'', doc_completed = JBool True\<rparr>],
       invoked = []\<rparr>))) \<and>
   ids (snd (serve_all
      [(\<lparr>fault = (\<lambda>p. None), fresh_oid = ''a3'', argument_limit = 65535\<rparr>,
        POST [''title'' \<mapsto> JStr ''z'']),
       (\<lparr>fault = (\<lambda>p. None), fresh_oid = ''a4'', argument_limit = 65535\<rparr>,
        POST [''title'' \<mapsto> JStr ''w''])]
      \<lparr>collection = False,
       documents = [\<lparr>doc_oid = ''a1'', doc_id = 3, doc_title = JStr ''x'', doc_completed = JBool False\<rparr>,
                    \<lparr>doc_oid = ''a2'', doc_id = 7, doc_title = JStr ''y'', doc_completed = JBool True\<rparr>],
       invoked = []\<rparr>)) = [3, 7, 8, 9]"
proof -
  define m where "m = \<lparr>collection = False,
       documents = [\<lparr>doc_oid = ''a1'', doc_id = 3, doc_title = JStr ''x'', doc_completed = JBool False\<rparr>,
                    \<lparr>doc_oid = ''a2'', doc_id = 7, doc_title = JStr ''y'', doc_completed = JBool True\<rparr>],
       invoked = []\<rparr>"
  have d: "distinct (ids m)" by (simp add: m_def ids_def)
  have r2: "room 2 (ids m)" by (simp add: m_def ids_def room_def)
  have r1: "room 1 (ids m)" by (simp add: m_def ids_def room_def)
  have nc: "\<not> is_create (DELETE ''3'')" by (simp add: is_create_def)
  have h: "healthy \<lparr>fault = (\<lambda>p. None), fresh_oid = oid, argument_limit = 65535\<rparr>" for oid
    by (simp add: healthy_def)
  have a: "accepted_body ''POST'' [''title'' \<mapsto> JStr [c]]" for c
    by (simp add: accepted_body_POST_iff)
  have "distinct (ids (snd (router \<lparr>fault = (\<lambda>p. None), fresh_oid = ''a3'', argument_limit = 65535\<rparr>
          (DELETE ''3'') m)))"
    using ids_stay_distinct_while_sums_are_exact [OF d] nc by blast
  moreover have "distinct (ids (snd (router
          \<lparr>fault = (\<lambda>p. None), fresh_oid = ''a3'', argument_limit = 65535\<rparr>
          (POST [''title'' \<mapsto> JStr ''z'']) m)))"
    using ids_stay_distinct_while_sums_are_exact [OF d] r1 by blast
  moreover have "ids (snd (serve_all
      [(\<lparr>fault = (\<lambda>p. None), fresh_oid = ''a3'', argument_limit = 65535\<rparr>,
        POST [''title'' \<mapsto> JStr ''z'']),
       (\<lparr>fault = (\<lambda>p. None), fresh_oid = ''a4'', argument_limit = 65535\<rparr>,
        POST [''title'' \<mapsto> JStr ''w''])] m)) = [3, 7, 8, 9]"
  proof -
    let ?e3 = "\<lparr>fault = (\<lambda>p. None), fresh_oid = ''a3'', argument_limit = 65535\<rparr>"
    let ?e4 = "\<lparr>fault = (\<lambda>p. None), fresh_oid = ''a4'', argument_limit = 65535\<rparr>"
    have n1: "newId_of ?e3 (documents m) = Inr 8"
      by (simp add: newId_of_def m_def roundInt_def roundDouble_def)
    define m1 where "m1 = snd (router ?e3 (POST [''title'' \<mapsto> JStr ''z'']) m)"
    have d1: "documents m1 = documents m @
        [\<lparr>doc_oid = ''a3'', doc_id = 8, doc_title = JStr ''z'', doc_completed = JBool False\<rparr>]"
      unfolding m1_def router_POST_healthy [OF h a n1] by (simp add: bson_value_def)
    have n2: "newId_of ?e4 (documents m1) = Inr 9"
      by (simp add: newId_of_def d1 m_def roundInt_def roundDouble_def)
    have "ids (snd (router ?e4 (POST [''title'' \<mapsto> JStr ''w'']) m1)) = [3, 7, 8, 9]"
      unfolding router_POST_healthy [OF h a n2] by (simp add: ids_def d1 m_def)
    then show ?thesis
      by (simp add: snd_serve_all_Cons m1_def del: serve_all.simps(2))
  qed
  ultimately show ?thesis using d r2 nc unfolding m_def by simp
qed

section \<open>Updates\<close>

lemma documents_router_PUT:
  "documents (snd (router e (PUT seg b) m)) = documents m \<or>
   documents (snd (router e (PUT seg b) m)) =
     update_first (matches (controller_id seg))
       (set_fields \<lparr>upd_title = b ''title'', upd_completed = b ''completed''\<rparr>) (documents m)"
proof (cases "parseInt seg = NaN")
  case True
  then show ?thesis by (simp add: router_rejected_id)
next
  case n: False
  show ?thesis
  proof (cases "accepted_body ''PUT'' b")
    case True
    with n have "snd (router e (PUT seg b) m) =
        snd (update e \<lparr>http_method = ''PUT'', params_id = PNumber (parseInt seg), body = b\<rparr> m)"
      by (simp add: router_accepted_id validateToDo_cases snd_finish)
    with documents_update
           [of e "\<lparr>http_method = ''PUT'', params_id = PNumber (parseInt seg), body = b\<rparr>" m]
    show ?thesis by (simp add: controller_id_def)
  next
    case False
    then show ?thesis by (simp add: router_PUT_rejected_body)
  qed
qed

lemma set_fields_frame:
  "doc_oid (set_fields u d) = doc_oid d \<and> doc_id (set_fields u d) = doc_id d \<and>
   (upd_title u = None \<longrightarrow> doc_title (set_fields u d) = doc_title d) \<and>
   (upd_completed u = None \<longrightarrow> doc_completed (set_fields u d) = doc_completed d)"
  by (simp add: set_fields_def)

lemma router_PUT_frame:
  assumes "k < length (documents m)"
  shows "doc_oid (documents (snd (router e (PUT seg b) m)) ! k) = doc_oid (documents m ! k) \<and>
         doc_id (documents (snd (router e (PUT seg b) m)) ! k) = doc_id (documents m ! k) \<and>
         (b ''title'' = None \<longrightarrow>
            doc_title (documents (snd (router e (PUT seg b) m)) ! k) = doc_title (documents m ! k)) \<and>
         (b ''completed'' = None \<longrightarrow>
            doc_completed (documents (snd (router e (PUT seg b) m)) ! k) =
              doc_completed (documents m ! k)) \<and>
         (controller_id seg \<noteq> Num (doc_id (documents m ! k)) \<longrightarrow>
            documents (snd (router e (PUT seg b) m)) ! k = documents m ! k)"
proof -
  define u where "u = \<lparr>upd_title = b ''title'', upd_completed = b ''completed''\<rparr>"
  define after where "after = documents (snd (router e (PUT seg b) m))"
  have "after = documents m \<or>
        after = update_first (matches (controller_id seg)) (set_fields u) (documents m)"
    unfolding after_def u_def by (rule documents_router_PUT)
  then have "after ! k = documents m ! k \<or>
      (matches (controller_id seg) (documents m ! k) \<and> after ! k = set_fields u (documents m ! k))"
    using update_first_nth [OF assms, of "matches (controller_id seg)" "set_fields u"] by auto
  then show ?thesis
    unfolding after_def [symmetric]
    using set_fields_frame [of u "documents m ! k"]
    by (auto simp: u_def matches_def)
qed

lemma router_PUT_frame_safe:
  assumes "k < length (documents m)" and "parseInt seg = Num n" and "safe_integer n"
    and "n \<noteq> doc_id (documents m ! k)"
  shows "documents (snd (router e (PUT seg b) m)) ! k = documents m ! k"
  using router_PUT_frame [OF assms(1), of e seg b] controller_id_safe [OF assms(2,3)] assms(4)
  by simp

lemma length_router_PUT:
  "length (documents (snd (router e (PUT seg b) m))) = length (documents m)"
  using documents_router_PUT [of e seg b m] by (auto simp: length_update_first)

lemma find_by_id_update_first:
  "find_by_id i (update_first (matches i) (set_fields u) ds) =
     map_option (set_fields u) (find_by_id i ds)"
  unfolding find_matches [symmetric]
  by (rule find_update_first) (rule matches_set_fields)

lemma router_PUT_effect:
  assumes "healthy e" and "parseInt seg = Num n" and "safe_integer n"
    and "accepted_body ''PUT'' b"
    and "find_by_id (Num n) (documents m) = Some d"
  shows "find_by_id (Num n) (documents (snd (router e (PUT seg b) m))) =
           Some (d\<lparr>doc_title := (case b ''title'' of None \<Rightarrow> doc_title d | Some t \<Rightarrow> t),
                   doc_completed := (case b ''completed'' of None \<Rightarrow> doc_completed d | Some c \<Rightarrow> c)\<rparr>)"
proof -
  from assms(2) have p: "parseInt seg \<noteq> NaN" by simp
  have c: "controller_id seg = Num n" using assms(2,3) by (rule controller_id_safe)
  have "documents (snd (router e (PUT seg b) m)) =
      update_first (matches (Num n))
        (set_fields \<lparr>upd_title = b ''title'', upd_completed = b ''completed''\<rparr>) (documents m)"
    by (simp add: router_PUT_healthy [OF assms(1) p assms(4)] c Let_def)
  with assms(5) show ?thesis
    by (simp add: find_by_id_update_first set_fields_def)
qed

lemma parseInt_1: "parseInt ''1'' = Num 1"
  by (simp add: parseInt_def isWhiteSpace_def radixDigit_def digitValue_def mathInt_def
      toNumber_def roundInt_def roundDouble_def Let_def)

lemma controller_id_10_21: "controller_id ''1000000000000000000000'' = Num 1"
  by (simp add: controller_id_def parseInt_param_def parseInt_10_21 ToString_10_21 parseInt_1e21)

text \<open>
  Claim C3, as stated, refuted. The collection holds task 1 and task \<open>10^21\<close>. The request
  \<open>PUT /todos/1000000000000000000000\<close> with \<open>{completed: true}\<close> is an update of the existing
  task \<open>10^21\<close>: \<open>validateId\<close> reads that integer from the path. The controller parses
  \<open>req.params.id\<close> again, from the text \<open>1e+21\<close> that the number prints as, and reads 1: the
  stored record of task 1, whose id is different, is changed, and task \<open>10^21\<close> is not.
\<close>

theorem update_changes_task_of_another_id:
  "parseInt ''1000000000000000000000'' = Num 1000000000000000000000 \<and>
   documents (snd (router \<lparr>fault = (\<lambda>p. None), fresh_oid = ''a9'', argument_limit = 65535\<rparr>
        (PUT ''1000000000000000000000'' [''completed'' \<mapsto> JBool True])
        \<lparr>collection = False,
          documents =
            [\<lparr>doc_oid = ''a1'', doc_id = 1, doc_title = JStr ''buy milk'', doc_completed = JBool False\<rparr>,
             \<lparr>doc_oid = ''a2'', doc_id = 1000000000000000000000, doc_title = JStr ''walk'',
               doc_completed = JBool False\<rparr>],
          invoked = []\<rparr>)) =
     [\<lparr>doc_oid = ''a1'', doc_id = 1, doc_title = JStr ''buy milk'', doc_completed = JBool True\<rparr>,
      \<lparr>doc_oid = ''a2'', doc_id = 1000000000000000000000, doc_title = JStr ''walk'',
        doc_completed = JBool False\<rparr>]"
proof -
  have h: "healthy \<lparr>fault = (\<lambda>p. None), fresh_oid = ''a9'', argument_limit = 65535\<rparr>"
    by (simp add: healthy_def)
  have p: "parseInt ''1000000000000000000000'' \<noteq> NaN" by (simp add: parseInt_10_21)
  have a: "accepted_body ''PUT'' [''completed'' \<mapsto> JBool True]"
    by (auto simp: accepted_body_PUT_iff)
  show ?thesis
    unfolding router_PUT_healthy [OF h p a] controller_id_10_21
    by (simp add: parseInt_10_21 Let_def updateOne_def matches_def set_fields_def)
qed

text \<open>
  Claim C3, amended. An update changes, in the stored record, only the fields its body
  carries: every document keeps its place, its storage identifier and its id; its title
  when the body has no title, its completion flag when the body has none; and a document
  whose id is not the one the controller reads from \<open>req.params.id\<close> is left as it was,
  whatever the outside does. When the path identifier is an integer below \<open>2^53\<close> in
  magnitude, that id is the one of the path: every task with a different id is left as
  it was, and, when the request is valid and the primitives go through, the task with
  the requested id takes the supplied values and keeps the rest.
\<close>

theorem update_changes_only_supplied_fields:
  "length (documents (snd (router e (PUT seg b) m))) = length (documents m) \<and>
   (\<forall>k<length (documents m).
      doc_oid (documents (snd (router e (PUT seg b) m)) ! k) = doc_oid (documents m ! k) \<and>
      doc_id (documents (snd (router e (PUT seg b) m)) ! k) = doc_id (documents m ! k) \<and>
      (b ''title'' = None \<longrightarrow>
         doc_title (documents (snd (router e (PUT seg b) m)) ! k) = doc_title (documents m ! k)) \<and>
      (b ''completed'' = None \<longrightarrow>
         doc_completed (documents (snd (router e (PUT seg b) m)) ! k) =
           doc_completed (documents m ! k)) \<and>
      (controller_id seg \<noteq> Num (doc_id (documents m ! k)) \<longrightarrow>
         documents (snd (router e (PUT seg b) m)) ! k = documents m ! k) \<and>
      (\<forall>n. parseInt seg = Num n \<and> safe_integer n \<and> n \<noteq> doc_id (documents m ! k) \<longrightarrow>
         documents (snd (router e (PUT seg b) m)) ! k = documents m ! k)) \<and>
   (healthy e \<and> accepted_body ''PUT'' b \<longrightarrow>
      (\<forall>n d. parseInt seg = Num n \<and> safe_integer n \<and>
             find_by_id (Num n) (documents m) = Some d \<longrightarrow>
         find_by_id (Num n) (documents (snd (router e (PUT seg b) m))) =
           Some (d\<lparr>doc_title := (case b ''title'' of None \<Rightarrow> doc_title d | Some t \<Rightarrow> t),
                   doc_completed :=
                     (case b ''completed'' of None \<Rightarrow> doc_completed d | Some c \<Rightarrow> c)\<rparr>)))"
  using length_router_PUT [of e seg b m] router_PUT_frame [of _ m e seg b]
    router_PUT_frame_safe [of _ m seg _ e b] router_PUT_effect [of e seg _ b m]
  by blast

theorem update_changes_only_supplied_fields_witness:
  "healthy \<lparr>fault = (\<lambda>p. None), fresh_oid = ''a9'', argument_limit = 65535\<rparr> \<and>
   accepted_body ''PUT'' [''completed'' \<mapsto> JBool True] \<and>
   parseInt ''1'' = Num 1 \<and> safe_integer 1 \<and>
   find_by_id (Num 1)
     [\<lparr>doc_oid = ''a1'', doc_id = 1, doc_title = JStr ''buy milk'', doc_completed = JBool False\<rparr>,
      \<lparr>doc_oid = ''a2'', doc_id = 2, doc_title = JStr ''walk'', doc_completed = JBool False\<rparr>] =
     Some \<lparr>doc_oid = ''a1'', doc_id = 1, doc_title = JStr ''buy milk'', doc_completed = JBool False\<rparr> \<and>
   find_by_id (Num 1)
     (documents (snd (router \<lparr>fault = (\<lambda>p. None), fresh_oid = ''a9'', argument_limit = 65535\<rparr>
        (PUT ''1'' [''completed'' \<mapsto> JBool True])
        \<lparr>collection = False,
          documents =
            [\<lparr>doc_oid = ''a1'', doc_id = 1, doc_title = JStr ''buy milk'', doc_completed = JBool False\<rparr>,
             \<lparr>doc_oid = ''a2'', doc_id = 2, doc_title = JStr ''walk'', doc_completed = JBool False\<rparr>],
          invoked = []\<rparr>))) =
     Some \<lparr>doc_oid = ''a1'', doc_id = 1, doc_title = JStr ''buy milk'', doc_completed = JBool True\<rparr> \<and>
   documents (snd (router \<lparr>fault = (\<lambda>p. None), fresh_oid = ''a9'', argument_limit = 65535\<rparr>
        (PUT ''1'' [''completed'' \<mapsto> JBool True])
        \<lparr>collection = False,
          documents =
            [\<lparr>doc_oid = ''a1'', doc_id = 1, doc_title = JStr ''buy milk'', doc_completed = JBool False\<rparr>,
             \<lparr>doc_oid = ''a2'', doc_id = 2, doc_title = JStr ''walk'', doc_completed = JBool False\<rparr>],
          invoked = []\<rparr>)) ! 1 =
     \<lparr>doc_oid = ''a2'', doc_id = 2, doc_title = JStr ''walk'', doc_completed = JBool False\<rparr>"
proof -
  define m where "m = \<lparr>collection = False,
          documents =
            [\<lparr>doc_oid = ''a1'', doc_id = 1, doc_title = JStr ''buy milk'', doc_completed = JBool False\<rparr>,
             \<lparr>doc_oid = ''a2'', doc_id = 2, doc_title = JStr ''walk'', doc_completed = JBool False\<rparr>],
          invoked = []\<rparr>"
  define e where "e = \<lparr>fault = (\<lambda>p. None), fresh_oid = ''a9'', argument_limit = 65535\<rparr>"
  define b where "b = [''completed'' \<mapsto> JBool True]"
  have h: "healthy e" by (simp add: healthy_def e_def)
  have a: "accepted_body ''PUT'' b" by (auto simp: accepted_body_PUT_iff b_def)
  have f: "find_by_id (Num 1) (documents m) =
      Some \<lparr>doc_oid = ''a1'', doc_id = 1, doc_title = JStr ''buy milk'', doc_completed = JBool False\<rparr>"
    by (simp add: find_by_id_def m_def)
  have l: "(1::nat) < length (documents m)" by (simp add: m_def)
  have s: "safe_integer 1" by (simp add: safe_integer_def)
  have p2: "controller_id ''1'' \<noteq> Num (doc_id (documents m ! 1))"
    by (simp add: controller_id_safe [OF parseInt_1 s] m_def)
  note inst = update_changes_only_supplied_fields [of e "''1''" b m]
  from inst h a parseInt_1 s f
  have "find_by_id (Num 1) (documents (snd (router e (PUT ''1'' b) m))) =
     Some \<lparr>doc_oid = ''a1'', doc_id = 1, doc_title = JStr ''buy milk'', doc_completed = JBool True\<rparr>"
    by (simp add: b_def)
  moreover from inst l p2
  have "documents (snd (router e (PUT ''1'' b) m)) ! 1 = documents m ! 1"
    by blast
  then have "documents (snd (router e (PUT ''1'' b) m)) ! 1 =
     \<lparr>doc_oid = ''a2'', doc_id = 2, doc_title = JStr ''walk'', doc_completed = JBool False\<rparr>"
    by (simp add: m_def)
  ultimately show ?thesis
    using h a f parseInt_1 s unfolding m_def e_def b_def by simp
qed

section \<open>The answer of an update\<close>

lemma modifiedCount_nonzero:
  assumes "modifiedCount (updateOne i u ds) \<noteq> 0"
  shows "\<exists>d. find_by_id i ds = Some d \<and> set_fields u d \<noteq> d"
  using assms by (auto simp: modifiedCount_zero_iff split: option.splits)

lemma update_healthy:
  assumes "healthy e" and "parseInt_param (params_id req) = Num n"
  shows "update e req m =
           (let u = \<lparr>upd_title = body req ''title'', upd_completed = body req ''completed''\<rparr>;
                ds = update_first (matches (Num n)) (set_fields u) (documents m)
            in if modifiedCount (updateOne (Num n) u (documents m)) = 0
               then (Sent (Response 404 (error_body msg_not_found)),
                     m\<lparr>collection := True, documents := ds,
                       invoked := invoked m @ [Connect, Update]\<rparr>)
               else (Sent (Response 200 (map_option json_of_document (find_by_id (Num n) ds))),
                     m\<lparr>collection := True, documents := ds,
                       invoked := invoked m @ [Connect, Update, ListAll]\<rparr>))"
  using assms
  by (simp add: update_def connect_healthy updateToDo_healthy getAllToDos_healthy Let_def)

lemma router_PUT_runs_update:
  assumes "parseInt seg = Num n" and "accepted_body ''PUT'' b"
  shows "router e (PUT seg b) m =
           finish (update e \<lparr>http_method = ''PUT'', params_id = PNumber (Num n), body = b\<rparr> m)"
  using assms by (simp add: router_accepted_id validateToDo_cases)

text \<open>
  Claim C4. For an update with a valid id whose primitives go through, the controller
  answers 404 exactly when the \<open>modifiedCount\<close> of \<open>updateOne\<close> is zero, and then the
  list is not read. Otherwise it lists the collection again after the update and answers
  200 with the first listed document whose id is the one asked for: the stored document,
  with its storage identifier, its id and every field the body did not carry. The route
  runs this method on every request \<open>validateId\<close> and \<open>validateToDo\<close> let through.
\<close>

theorem update_not_found_iff_nothing_modified:
  assumes "healthy e" and "parseInt_param (params_id req) = Num n"
  shows "(fst (update e req m) = Sent (Response 404 (error_body msg_not_found)) \<longleftrightarrow>
            modifiedCount (updateOne (Num n)
              \<lparr>upd_title = body req ''title'', upd_completed = body req ''completed''\<rparr>
              (documents m)) = 0) \<and>
         (modifiedCount (updateOne (Num n)
              \<lparr>upd_title = body req ''title'', upd_completed = body req ''completed''\<rparr>
              (documents m)) = 0 \<longrightarrow>
            invoked (snd (update e req m)) = invoked m @ [Connect, Update]) \<and>
         (modifiedCount (updateOne (Num n)
              \<lparr>upd_title = body req ''title'', upd_completed = body req ''completed''\<rparr>
              (documents m)) \<noteq> 0 \<longrightarrow>
            invoked (snd (update e req m)) = invoked m @ [Connect, Update, ListAll] \<and>
            (\<exists>d. find_by_id (Num n) (documents (snd (update e req m))) = Some d \<and>
                 d \<in> set (documents (snd (update e req m))) \<and> doc_id d = n \<and>
                 fst (update e req m) = Sent (Response 200 (Some (json_of_document d))))) \<and>
         (\<forall>seg. parseInt seg = Num n \<and> accepted_body ''PUT'' (body req) \<longrightarrow>
            router e (PUT seg (body req)) m =
              finish (update e \<lparr>http_method = ''PUT'', params_id = PNumber (Num n), body = body req\<rparr> m))"
proof -
  define u where "u = \<lparr>upd_title = body req ''title'', upd_completed = body req ''completed''\<rparr>"
  define ds where "ds = update_first (matches (Num n)) (set_fields u) (documents m)"
  note r = update_healthy [OF assms, of m, folded u_def, unfolded Let_def, folded ds_def]
  have route: "\<forall>seg. parseInt seg = Num n \<and> accepted_body ''PUT'' (body req) \<longrightarrow>
            router e (PUT seg (body req)) m =
              finish (update e \<lparr>http_method = ''PUT'', params_id = PNumber (Num n), body = body req\<rparr> m)"
    by (simp add: router_PUT_runs_update)
  show ?thesis
  proof (cases "modifiedCount (updateOne (Num n) u (documents m)) = 0")
    case True
    with r route show ?thesis by (simp add: u_def [symmetric])
  next
    case False
    from modifiedCount_nonzero [OF False] obtain d0 where
      d0: "find_by_id (Num n) (documents m) = Some d0" by blast
    have f: "find_by_id (Num n) ds = Some (set_fields u d0)"
      unfolding ds_def by (simp add: find_by_id_update_first d0)
    from find_by_id_Some [OF f]
    have "set_fields u d0 \<in> set ds" and "doc_id (set_fields u d0) = n" by auto
    with False r f route show ?thesis by (simp add: u_def [symmetric])
  qed
qed

theorem update_not_found_iff_nothing_modified_witness:
  "healthy \<lparr>fault = (\<lambda>p. None), fresh_oid = ''a9'', argument_limit = 65535\<rparr> \<and>
   parseInt_param
     (params_id \<lparr>http_method = ''PUT'', params_id = PNumber (Num 1),
                 body = [''completed'' \<mapsto> JBool True]\<rparr>) = Num 1 \<and>
   modifiedCount (updateOne (Num 1)
     \<lparr>upd_title = [''completed'' \<mapsto> JBool True] ''title'',
       upd_completed = [''completed'' \<mapsto> JBool True] ''completed''\<rparr>
     [\<lparr>doc_oid = ''a1'', doc_id = 1, doc_title = JStr ''buy milk'', doc_completed = JBool False\<rparr>]) = 1 \<and>
   update \<lparr>fault = (\<lambda>p. None), fresh_oid = ''a9'', argument_limit = 65535\<rparr>
     \<lparr>http_method = ''PUT'', params_id = PNumber (Num 1), body = [''completed'' \<mapsto> JBool True]\<rparr>
     \<lparr>collection = False,
       documents =
         [\<lparr>doc_oid = ''a1'', doc_id = 1, doc_title = JStr ''buy milk'', doc_completed = JBool False\<rparr>],
       invoked = []\<rparr> =
     (Sent (Response 200
        (Some (JObj [(''_id'', JStr ''a1''), (''id'', JNum 1), (''title'', JStr ''buy milk''),
                     (''completed'', JBool True)]))),
      \<lparr>collection = True,
        documents =
          [\<lparr>doc_oid = ''a1'', doc_id = 1, doc_title = JStr ''buy milk'', doc_completed = JBool True\<rparr>],
        invoked = [Connect, Update, ListAll]\<rparr>) \<and>
   fst (update \<lparr>fault = (\<lambda>p. None), fresh_oid = ''a9'', argument_limit = 65535\<rparr>
     \<lparr>http_method = ''PUT'', params_id = PNumber (Num 1), body = [''completed'' \<mapsto> JBool True]\<rparr>
     \<lparr>collection = False,
       documents =
         [\<lparr>doc_oid = ''a1'', doc_id = 1, doc_title = JStr ''buy milk'', doc_completed = JBool False\<rparr>],
       invoked = []\<rparr>) \<noteq> Sent (Response 404 (error_body msg_not_found))"
proof -
  define m where "m = \<lparr>collection = False,
       documents =
         [\<lparr>doc_oid = ''a1'', doc_id = 1, doc_title = JStr ''buy milk'', doc_completed = JBool False\<rparr>],
       invoked = []\<rparr>"
  define e where "e = \<lparr>fault = (\<lambda>p. None), fresh_oid = ''a9'', argument_limit = 65535\<rparr>"
  define req where "req = \<lparr>http_method = ''PUT'', params_id = PNumber (Num 1),
                             body = [''completed'' \<mapsto> JBool True]\<rparr>"
  have h: "healthy e" by (simp add: healthy_def e_def)
  have p: "parseInt_param (params_id req) = Num 1"
    by (simp add: req_def parseInt_param_PNumber safe_integer_def)
  have c: "modifiedCount (updateOne (Num 1)
       \<lparr>upd_title = body req ''title'', upd_completed = body req ''completed''\<rparr> (documents m)) = 1"
    by (simp add: updateOne_def matches_def set_fields_def m_def req_def)
  have "fst (update e req m) \<noteq> Sent (Response 404 (error_body msg_not_found))"
    using update_not_found_iff_nothing_modified [OF h p, of m] c by simp
  moreover have "update e req m =
     (Sent (Response 200
        (Some (JObj [(''_id'', JStr ''a1''), (''id'', JNum 1), (''title'', JStr ''buy milk''),
                     (''completed'', JBool True)]))),
      \<lparr>collection = True,
        documents =
          [\<lparr>doc_oid = ''a1'', doc_id = 1, doc_title = JStr ''buy milk'', doc_completed = JBool True\<rparr>],
        invoked = [Connect, Update, ListAll]\<rparr>)"
    unfolding update_healthy [OF h p]
    by (simp add: Let_def updateOne_def matches_def set_fields_def find_by_id_def
        json_of_document_def m_def req_def)
  ultimately show ?thesis
    using h p c unfolding m_def e_def req_def by simp
qed

text \<open>
  Claim C10. An update of a task that exists, with a valid body in which every supplied
  field already has the stored value, is answered 404: the controller connects and runs
  the update primitive, \<open>updateOne\<close> matches the document (\<open>matchedCount\<close> is one) and
  reports a \<open>modifiedCount\<close> of zero, which the controller reads as not found, without
  listing the collection. The collection is left as it was.
\<close>

theorem update_noop_patch_answers_not_found:
  assumes "healthy e" and "parseInt seg = Num n" and "safe_integer n"
    and "accepted_body ''PUT'' b"
    and "find_by_id (Num n) (documents m) = Some d"
    and "\<forall>t. b ''title'' = Some t \<longrightarrow> doc_title d = t"
    and "\<forall>c. b ''completed'' = Some c \<longrightarrow> doc_completed d = c"
  shows "matchedCount (updateOne (Num n)
            \<lparr>upd_title = b ''title'', upd_completed = b ''completed''\<rparr> (documents m)) = 1 \<and>
         modifiedCount (updateOne (Num n)
            \<lparr>upd_title = b ''title'', upd_completed = b ''completed''\<rparr> (documents m)) = 0 \<and>
         fst (router e (PUT seg b) m) = Response 404 (error_body msg_not_found) \<and>
         documents (snd (router e (PUT seg b) m)) = documents m \<and>
         invoked (snd (router e (PUT seg b) m)) = invoked m @ [Connect, Update]"
proof -
  define u where "u = \<lparr>upd_title = b ''title'', upd_completed = b ''completed''\<rparr>"
  from assms(2) have p: "parseInt seg \<noteq> NaN" by simp
  have c: "controller_id seg = Num n" using assms(2,3) by (rule controller_id_safe)
  have same: "set_fields u d = d"
    using assms(6,7) by (simp add: set_fields_def u_def split: option.splits)
  have mc: "matchedCount (updateOne (Num n) u (documents m)) = 1"
    using assms(5) by (simp add: updateOne_def find_matches)
  have zero: "modifiedCount (updateOne (Num n) u (documents m)) = 0"
    using assms(5) same by (simp add: modifiedCount_zero_iff)
  have "update_first (matches (Num n)) (set_fields u) (documents m) = documents m"
    using zero by (rule modifiedCount_zero_unchanged)
  with zero mc show ?thesis
    by (simp add: router_PUT_healthy [OF assms(1) p assms(4)] c Let_def u_def [symmetric])
qed

theorem update_noop_patch_answers_not_found_witness:
  "healthy \<lparr>fault = (\<lambda>p. None), fresh_oid = ''a9'', argument_limit = 65535\<rparr> \<and>
   parseInt ''1'' = Num 1 \<and> safe_integer 1 \<and>
   accepted_body ''PUT'' [''completed'' \<mapsto> JBool True] \<and>
   find_by_id (Num 1)
     [\<lparr>doc_oid = ''a1'', doc_id = 1, doc_title = JStr ''buy milk'', doc_completed = JBool True\<rparr>] =
     Some \<lparr>doc_oid = ''a1'', doc_id = 1, doc_title = JStr ''buy milk'', doc_completed = JBool True\<rparr> \<and>
   router \<lparr>fault = (\<lambda>p. None), fresh_oid = ''a9'', argument_limit = 65535\<rparr>
     (PUT ''1'' [''completed'' \<mapsto> JBool True])
     \<lparr>collection = False,
       documents =
         [\<lparr>doc_oid = ''a1'', doc_id = 1, doc_title = JStr ''buy milk'', doc_completed = JBool True\<rparr>],
       invoked = []\<rparr> =
     (Response 404 (error_body msg_not_found),
      \<lparr>collection = True,
        documents =
          [\<lparr>doc_oid = ''a1'', doc_id = 1, doc_title = JStr ''buy milk'', doc_completed = JBool True\<rparr>],
        invoked = [Connect, Update]\<rparr>)"
proof -
  define m where "m = \<lparr>collection = False,
       documents =
         [\<lparr>doc_oid = ''a1'', doc_id = 1, doc_title = JStr ''buy milk'', doc_completed = JBool True\<rparr>],
       invoked = []\<rparr>"
  define e where "e = \<lparr>fault = (\<lambda>p. None), fresh_oid = ''a9'', argument_limit = 65535\<rparr>"
  define b where "b = [''completed'' \<mapsto> JBool True]"
  define d where
    "d = \<lparr>doc_oid = ''a1'', doc_id = 1, doc_title = JStr ''buy milk'', doc_completed = JBool True\<rparr>"
  have h: "healthy e" by (simp add: healthy_def e_def)
  have s: "safe_integer 1" by (simp add: safe_integer_def)
  have a: "accepted_body ''PUT'' b" by (auto simp: accepted_body_PUT_iff b_def)
  have f: "find_by_id (Num 1) (documents m) = Some d"
    by (simp add: find_by_id_def m_def d_def)
  have t: "\<forall>t. b ''title'' = Some t \<longrightarrow> doc_title d = t" by (simp add: b_def)
  have c: "\<forall>c. b ''completed'' = Some c \<longrightarrow> doc_completed d = c" by (simp add: b_def d_def)
  note inst = update_noop_patch_answers_not_found [OF h parseInt_1 s a f t c]
  have col: "collection (snd (router e (PUT ''1'' b) m))"
    using parseInt_1 by (simp add: router_PUT_healthy [OF h _ a] Let_def)
  have "snd (router e (PUT ''1'' b) m) =
      \<lparr>collection = True, documents = documents m, invoked = invoked m @ [Connect, Update]\<rparr>"
    using inst col by (cases "snd (router e (PUT ''1'' b) m)") simp
  with inst have "router e (PUT ''1'' b) m =
      (Response 404 (error_body msg_not_found),
       \<lparr>collection = True, documents = documents m, invoked = invoked m @ [Connect, Update]\<rparr>)"
    by (simp add: prod_eq_iff)
  then show ?thesis
    using h a f s parseInt_1 unfolding m_def e_def b_def d_def by simp
qed

end
